theory Spec2Isabelle
  imports Main "HOL-Library.Sublist"
begin

section \<open>JavaScript values, errors and the built-in operations the services use\<close>

text \<open>
  The services of \<^verbatim>\<open>performance_test_large1.js\<close> pass loosely typed values around: statement
  parameters, rows that come back from the store, results of statements. They are modelled
  by one datatype of JavaScript values. An object is the list of its own properties, in
  insertion order. Numbers are integers (identifiers, counts, prices in whole units): NaN,
  infinities and fractions are outside the model. Strings are lists of 8-bit characters.

  Every method of the source is \<^verbatim>\<open>async\<close> and is awaited by its caller at once, so a call
  runs to its end before the next one starts: the model is sequential and passes the state
  of the objects explicitly. A thrown exception is the \<open>Inl\<close> of a sum; the state that the
  method had changed before it threw is returned beside it.
\<close>

datatype jsval =
    JUndefined
  | JNull
  | JBool bool
  | JNum int
  | JStr string
  | JArr "jsval list"
  | JObj "(string \<times> jsval) list"

datatype error =
    Error string
  | TypeError string
  | SQLException string

text \<open>ToBoolean: what \<^verbatim>\<open>if (v)\<close>, \<^verbatim>\<open>!v\<close> and \<^verbatim>\<open>v || w\<close> test.\<close>

fun truthy :: "jsval \<Rightarrow> bool" where
  "truthy JUndefined = False"
| "truthy JNull = False"
| "truthy (JBool b) = b"
| "truthy (JNum n) = (n \<noteq> 0)"
| "truthy (JStr s) = (s \<noteq> [])"
| "truthy (JArr xs) = True"
| "truthy (JObj ps) = True"

text \<open>\<^verbatim>\<open>a || b\<close>: the first operand when it is truthy, the second otherwise.\<close>

definition js_or :: "jsval \<Rightarrow> jsval \<Rightarrow> jsval" where
  "js_or a b = (if truthy a then a else b)"

text \<open>
  \<^verbatim>\<open>v.name\<close> for the property names the source reads (\<^verbatim>\<open>name\<close>, \<^verbatim>\<open>email\<close>, \<^verbatim>\<open>role\<close>,
  \<^verbatim>\<open>price\<close>, \<^verbatim>\<open>total\<close>, \<^verbatim>\<open>insertId\<close>, \<^verbatim>\<open>length\<close>, ...) and \<^verbatim>\<open>v[0]\<close>. Reading a property of
  \<^verbatim>\<open>undefined\<close> or \<^verbatim>\<open>null\<close> throws a TypeError; reading a missing property gives
  \<^verbatim>\<open>undefined\<close>.
\<close>

fun js_field :: "jsval \<Rightarrow> string \<Rightarrow> jsval" where
  "js_field (JObj ps) name = (case map_of ps name of Some v \<Rightarrow> v | None \<Rightarrow> JUndefined)"
| "js_field (JArr xs) name = (if name = ''length'' then JNum (int (length xs)) else JUndefined)"
| "js_field (JStr s) name = (if name = ''length'' then JNum (int (length s)) else JUndefined)"
| "js_field v name = JUndefined"

fun js_index0 :: "jsval \<Rightarrow> jsval" where
  "js_index0 (JArr xs) = (case xs of [] \<Rightarrow> JUndefined | x # rest \<Rightarrow> x)"
| "js_index0 (JStr s) = (case s of [] \<Rightarrow> JUndefined | c # rest \<Rightarrow> JStr [c])"
| "js_index0 (JObj ps) = (case map_of ps ''0'' of Some v \<Rightarrow> v | None \<Rightarrow> JUndefined)"
| "js_index0 v = JUndefined"

fun nullish :: "jsval \<Rightarrow> bool" where
  "nullish JUndefined = True"
| "nullish JNull = True"
| "nullish v = False"

text \<open>The TypeError of a property read on \<^verbatim>\<open>undefined\<close> or \<^verbatim>\<open>null\<close>, with the message of V8.\<close>

definition cannot_read :: "jsval \<Rightarrow> string \<Rightarrow> error" where
  "cannot_read v name =
     TypeError (''Cannot read properties of '' @ (if v = JNull then ''null'' else ''undefined'')
                @ '' (reading '' @ [CHR 0x27] @ name @ [CHR 0x27] @ '')'')"

definition js_get :: "jsval \<Rightarrow> string \<Rightarrow> error + jsval" where
  "js_get v name = (if nullish v then Inl (cannot_read v name) else Inr (js_field v name))"

definition js_get0 :: "jsval \<Rightarrow> error + jsval" where
  "js_get0 v = (if nullish v then Inl (cannot_read v ''0'') else Inr (js_index0 v))"

subsection \<open>JSON.stringify\<close>

fun digits :: "nat \<Rightarrow> string" where
  "digits n =
     (if n < 10 then [char_of (48 + n)] else digits (n div 10) @ [char_of (48 + n mod 10)])"

declare digits.simps [simp del]

definition hexdigit :: "nat \<Rightarrow> char" where
  "hexdigit n = (if n < 10 then char_of (48 + n) else char_of (87 + n))"

text \<open>
  QuoteJSONString: the quote and the backslash are escaped, the control characters have
  their short escapes or \<^verbatim>\<open>\u00XX\<close>, every other character stands for itself.
\<close>

definition json_escape :: "char \<Rightarrow> string" where
  "json_escape c =
     (let n = (of_char c :: nat) in
      if n = 34 then [char_of (92::nat), char_of (34::nat)]
      else if n = 92 then [char_of (92::nat), char_of (92::nat)]
      else if n = 8 then [char_of (92::nat), CHR ''b'']
      else if n = 9 then [char_of (92::nat), CHR ''t'']
      else if n = 10 then [char_of (92::nat), CHR ''n'']
      else if n = 12 then [char_of (92::nat), CHR ''f'']
      else if n = 13 then [char_of (92::nat), CHR ''r'']
      else if n < 32 then
        [char_of (92::nat), CHR ''u'', CHR ''0'', CHR ''0'', hexdigit (n div 16), hexdigit (n mod 16)]
      else [c])"

definition json_quote :: "string \<Rightarrow> string" where
  "json_quote s = [char_of (34::nat)] @ concat (map json_escape s) @ [char_of (34::nat)]"

fun join :: "string \<Rightarrow> string list \<Rightarrow> string" where
  "join sep [] = []"
| "join sep [x] = x"
| "join sep (x # y # ys) = x @ sep @ join sep (y # ys)"

text \<open>
  \<^verbatim>\<open>JSON.stringify\<close> of a value inside an array or an object. In an array \<^verbatim>\<open>undefined\<close>
  is written \<^verbatim>\<open>null\<close>; in an object a property whose value is \<^verbatim>\<open>undefined\<close> is left out.
  The properties are written in the order of the list, and a number in decimal digits:
  this is what JavaScript writes for the values that \<open>plain\<close> describes below (numbers up
  to \<open>2^53 - 1\<close> in absolute value, objects without integer-like keys), and the
  properties that name \<open>stringify\<close> are stated for those.
\<close>

fun stringify :: "jsval \<Rightarrow> string"
  and stringify_elems :: "jsval list \<Rightarrow> string list"
  and stringify_props :: "(string \<times> jsval) list \<Rightarrow> string list" where
  "stringify JUndefined = ''null''"
| "stringify JNull = ''null''"
| "stringify (JBool b) = (if b then ''true'' else ''false'')"
| "stringify (JNum n) = (if n < 0 then CHR ''-'' # digits (nat (- n)) else digits (nat n))"
| "stringify (JStr s) = json_quote s"
| "stringify (JArr xs) = ''['' @ join '','' (stringify_elems xs) @ '']''"
| "stringify (JObj ps) = ''{'' @ join '','' (stringify_props ps) @ ''}''"
| "stringify_elems [] = []"
| "stringify_elems (x # xs) = stringify x # stringify_elems xs"
| "stringify_props [] = []"
| "stringify_props ((k, v) # ps) =
     (if v = JUndefined then stringify_props ps
      else (json_quote k @ '':'' @ stringify v) # stringify_props ps)"

subsection \<open>ToString\<close>

text \<open>
  The string a template literal or a string concatenation writes for a value (ToString);
  a number is written in decimal digits, as JavaScript writes the integers below \<open>10^21\<close>.
\<close>

fun to_string :: "jsval \<Rightarrow> string"
  and to_string_elems :: "jsval list \<Rightarrow> string list" where
  "to_string JUndefined = ''undefined''"
| "to_string JNull = ''null''"
| "to_string (JBool b) = (if b then ''true'' else ''false'')"
| "to_string (JNum n) = (if n < 0 then CHR ''-'' # digits (nat (- n)) else digits (nat n))"
| "to_string (JStr s) = s"
| "to_string (JArr xs) = join '','' (to_string_elems xs)"
| "to_string (JObj ps) = ''[object Object]''"
| "to_string_elems [] = []"
| "to_string_elems (x # xs) = (if nullish x then [] else to_string x) # to_string_elems xs"

subsection \<open>Map\<close>

text \<open>
  A JavaScript \<^verbatim>\<open>Map\<close> iterates in insertion order, so it is an association list with
  distinct keys: \<^verbatim>\<open>set\<close> keeps the place of a key that is present and appends a new one.
\<close>

definition Map_has :: "('k \<times> 'v) list \<Rightarrow> 'k \<Rightarrow> bool" where
  "Map_has m k = (k \<in> set (map fst m))"

definition Map_get :: "('k \<times> jsval) list \<Rightarrow> 'k \<Rightarrow> jsval" where
  "Map_get m k = (case map_of m k of Some v \<Rightarrow> v | None \<Rightarrow> JUndefined)"

fun Map_set :: "('k \<times> 'v) list \<Rightarrow> 'k \<Rightarrow> 'v \<Rightarrow> ('k \<times> 'v) list" where
  "Map_set [] k v = [(k, v)]"
| "Map_set (p # ps) k v = (if fst p = k then (k, v) # ps else p # Map_set ps k v)"

definition Map_delete :: "('k \<times> 'v) list \<Rightarrow> 'k \<Rightarrow> ('k \<times> 'v) list" where
  "Map_delete m k = filter (\<lambda>p. fst p \<noteq> k) m"

definition Map_clear :: "('k \<times> 'v) list \<Rightarrow> ('k \<times> 'v) list" where
  "Map_clear m = []"

section \<open>DatabaseManager (JavaScript)\<close>

text \<open>
  The class calls \<^verbatim>\<open>this.establishConnection()\<close> and \<^verbatim>\<open>this.executeQuery(sql, params)\<close>,
  which it does not define: they are the store behind the manager and are parameters of the
  model. An executor takes the statement, its parameters and the state of the store, and
  gives the result (or the exception) and the new state of the store.
\<close>

type_synonym 'st executor = "string \<Rightarrow> jsval list \<Rightarrow> 'st \<Rightarrow> (error + jsval) \<times> 'st"

record config =
  cfg_maxConnections :: "int option"
  cfg_retryAttempts :: "int option"

record 'st DatabaseManager =
  connection :: "nat option"
  queryCache :: "(string \<times> jsval) list"
  maxConnections :: int
  retryAttempts :: int
  backend :: 'st

text \<open>\<^verbatim>\<open>config.x || d\<close>: the default also replaces a configured 0.\<close>

definition or_default :: "int option \<Rightarrow> int \<Rightarrow> int" where
  "or_default v d = (case v of None \<Rightarrow> d | Some n \<Rightarrow> if n \<noteq> 0 then n else d)"

definition new_DatabaseManager :: "config \<Rightarrow> 'st \<Rightarrow> 'st DatabaseManager" where
  "new_DatabaseManager cfg st =
     \<lparr> connection = None,
       queryCache = [],
       maxConnections = or_default (cfg_maxConnections cfg) 10,
       retryAttempts = or_default (cfg_retryAttempts cfg) 3,
       backend = st \<rparr>"

definition generateCacheKey :: "string \<Rightarrow> jsval list \<Rightarrow> string" where
  "generateCacheKey sql params = sql @ '':'' @ stringify (JArr params)"

text \<open>
  \<^verbatim>\<open>clearOldestCacheEntries\<close>: the first 100 entries of the map, in iteration order, are
  deleted by key one after the other.
\<close>

definition clearOldestCacheEntries :: "'st DatabaseManager \<Rightarrow> 'st DatabaseManager" where
  "clearOldestCacheEntries dbm =
     (let entries = queryCache dbm;
          toRemove = take 100 entries
      in dbm\<lparr>queryCache := foldl (\<lambda>m p. Map_delete m (fst p)) (queryCache dbm) toRemove\<rparr>)"

definition query ::
  "'st executor \<Rightarrow> 'st DatabaseManager \<Rightarrow> string \<Rightarrow> jsval list
     \<Rightarrow> (error + jsval) \<times> 'st DatabaseManager" where
  "query executeQuery dbm sql params =
     (let cacheKey = generateCacheKey sql params in
      if Map_has (queryCache dbm) cacheKey then (Inr (Map_get (queryCache dbm) cacheKey), dbm)
      else
        (case executeQuery sql params (backend dbm) of
           (Inl e, st) \<Rightarrow> (Inl e, dbm\<lparr>backend := st\<rparr>)
         | (Inr result, st) \<Rightarrow>
             (let dbm1 = dbm\<lparr>backend := st\<rparr>;
                  dbm2 = (if length (queryCache dbm1) > 1000
                          then clearOldestCacheEntries dbm1 else dbm1)
              in (Inr result, dbm2\<lparr>queryCache := Map_set (queryCache dbm2) cacheKey result\<rparr>))))"


section \<open>UserService\<close>

text \<open>
  The fields of the data a caller passes to create or update a user are strings; a field
  that is not given is \<open>None\<close> (\<^verbatim>\<open>undefined\<close> in the source). Identifiers are numbers.
\<close>

record userData =
  ud_name :: "string option"
  ud_email :: "string option"
  ud_role :: "string option"

record 'st UserService =
  us_db :: "'st DatabaseManager"
  userCache :: "(int \<times> jsval) list"

definition new_UserService :: "'st DatabaseManager \<Rightarrow> 'st UserService" where
  "new_UserService dbManager = \<lparr> us_db = dbManager, userCache = [] \<rparr>"

definition of_str :: "string option \<Rightarrow> jsval" where
  "of_str v = (case v of None \<Rightarrow> JUndefined | Some s \<Rightarrow> JStr s)"

definition of_num :: "int option \<Rightarrow> jsval" where
  "of_num v = (case v of None \<Rightarrow> JUndefined | Some n \<Rightarrow> JNum n)"

text \<open>\<^verbatim>\<open>!v\<close>\<close>

definition js_not :: "jsval \<Rightarrow> bool" where
  "js_not v = (\<not> truthy v)"

definition getUser ::
  "'st executor \<Rightarrow> 'st UserService \<Rightarrow> int \<Rightarrow> (error + jsval) \<times> 'st UserService" where
  "getUser executeQuery us id' =
     (if Map_has (userCache us) id' then (Inr (Map_get (userCache us) id'), us)
      else
        (case query executeQuery (us_db us) ''SELECT * FROM users WHERE id = ?'' [JNum id'] of
           (Inl e, d) \<Rightarrow> (Inl e, us\<lparr>us_db := d\<rparr>)
         | (Inr result, d) \<Rightarrow>
             (let us1 = us\<lparr>us_db := d\<rparr> in
              if truthy result \<and> truthy (js_index0 result)
              then (Inr (js_index0 result),
                    us1\<lparr>userCache := Map_set (userCache us1) id' (js_index0 result)\<rparr>)
              else (Inr JNull, us1))))"

definition us_clearCache :: "'st UserService \<Rightarrow> 'st UserService" where
  "us_clearCache us = us\<lparr>userCache := Map_clear (userCache us)\<rparr>"

text \<open>
  \<^verbatim>\<open>/^[^\s@]+@[^\s@]+\.[^\s@]+$/\<close>. The first group cannot hold an \<^verbatim>\<open>@\<close>, so the \<^verbatim>\<open>@\<close> of
  the pattern is the first one of the string; what follows it has no \<^verbatim>\<open>@\<close> and no white
  space, and has a dot that is neither its first nor its last character.
\<close>

definition is_space :: "char \<Rightarrow> bool" where
  "is_space c = ((of_char c :: nat) \<in> {9, 10, 11, 12, 13, 32, 160})"

definition email_char :: "char \<Rightarrow> bool" where
  "email_char c = (\<not> is_space c \<and> c \<noteq> CHR ''@'')"

definition validateEmail :: "string \<Rightarrow> bool" where
  "validateEmail email =
     (let l = takeWhile (\<lambda>c. c \<noteq> CHR ''@'') email;
          r = dropWhile (\<lambda>c. c \<noteq> CHR ''@'') email
      in case r of
           [] \<Rightarrow> False
         | at # d \<Rightarrow>
             l \<noteq> [] \<and> list_all email_char l \<and> list_all email_char d
             \<and> CHR ''.'' \<in> set (butlast (tl d)))"

definition createUser ::
  "'st executor \<Rightarrow> 'st UserService \<Rightarrow> userData \<Rightarrow> (error + jsval) \<times> 'st UserService" where
  "createUser executeQuery us userData =
     (if js_not (of_str (ud_name userData)) \<or> js_not (of_str (ud_email userData))
         \<or> js_not (of_str (ud_role userData))
      then (Inl (Error ''Missing required user fields''), us)
      else if \<not> validateEmail (case ud_email userData of Some s \<Rightarrow> s | None \<Rightarrow> ''undefined'')
      then (Inl (Error ''Invalid email format''), us)
      else
        (case query executeQuery (us_db us)
                ''INSERT INTO users (name, email, role) VALUES (?, ?, ?)''
                [of_str (ud_name userData), of_str (ud_email userData), of_str (ud_role userData)] of
           (Inl e, d) \<Rightarrow> (Inl e, us\<lparr>us_db := d\<rparr>)
         | (Inr result, d) \<Rightarrow>
             (case js_get result ''insertId'' of
                Inl e \<Rightarrow> (Inl e, us\<lparr>us_db := d\<rparr>)
              | Inr logged \<Rightarrow> (Inr result, us_clearCache (us\<lparr>us_db := d\<rparr>)))))"

definition updateUser ::
  "'st executor \<Rightarrow> 'st UserService \<Rightarrow> int \<Rightarrow> userData \<Rightarrow> (error + jsval) \<times> 'st UserService" where
  "updateUser executeQuery us id' userData =
     (case getUser executeQuery us id' of
        (Inl e, us1) \<Rightarrow> (Inl e, us1)
      | (Inr existingUser, us1) \<Rightarrow>
          if js_not existingUser
          then (Inl (Error (''User with id '' @ to_string (JNum id') @ '' not found'')), us1)
          else
            (case query executeQuery (us_db us1)
                    ''UPDATE users SET name = ?, email = ?, role = ? WHERE id = ?''
                    [js_or (of_str (ud_name userData)) (js_field existingUser ''name''),
                     js_or (of_str (ud_email userData)) (js_field existingUser ''email''),
                     js_or (of_str (ud_role userData)) (js_field existingUser ''role''),
                     JNum id'] of
               (Inl e, d) \<Rightarrow> (Inl e, us1\<lparr>us_db := d\<rparr>)
             | (Inr result, d) \<Rightarrow> (Inr result, us_clearCache (us1\<lparr>us_db := d\<rparr>))))"

definition deleteUser ::
  "'st executor \<Rightarrow> 'st UserService \<Rightarrow> int \<Rightarrow> (error + jsval) \<times> 'st UserService" where
  "deleteUser executeQuery us id' =
     (case getUser executeQuery us id' of
        (Inl e, us1) \<Rightarrow> (Inl e, us1)
      | (Inr existingUser, us1) \<Rightarrow>
          if js_not existingUser
          then (Inl (Error (''User with id '' @ to_string (JNum id') @ '' not found'')), us1)
          else
            (case query executeQuery (us_db us1) ''DELETE FROM users WHERE id = ?'' [JNum id'] of
               (Inl e, d) \<Rightarrow> (Inl e, us1\<lparr>us_db := d\<rparr>)
             | (Inr result, d) \<Rightarrow> (Inr result, us_clearCache (us1\<lparr>us_db := d\<rparr>))))"

section \<open>ProductService\<close>

record productData =
  pd_name :: "string option"
  pd_description :: "string option"
  pd_price :: "int option"
  pd_category :: "string option"

text \<open>
  The filters of \<^verbatim>\<open>listProducts\<close> come from the caller as they are, so each is any
  JavaScript value; a filter that is not given is \<^verbatim>\<open>undefined\<close>.
\<close>

record filters =
  f_category :: jsval
  f_minPrice :: jsval
  f_maxPrice :: jsval
  f_inStock :: jsval
  f_sortBy :: jsval
  f_sortOrder :: jsval
  f_limit :: jsval

record 'st ProductService =
  ps_db :: "'st DatabaseManager"
  productCache :: "(int \<times> jsval) list"
  categoryCache :: "(string \<times> jsval) list"

definition new_ProductService :: "'st DatabaseManager \<Rightarrow> 'st ProductService" where
  "new_ProductService dbManager = \<lparr> ps_db = dbManager, productCache = [], categoryCache = [] \<rparr>"

definition getProduct ::
  "'st executor \<Rightarrow> 'st ProductService \<Rightarrow> int \<Rightarrow> (error + jsval) \<times> 'st ProductService" where
  "getProduct executeQuery ps id' =
     (if Map_has (productCache ps) id' then (Inr (Map_get (productCache ps) id'), ps)
      else
        (case query executeQuery (ps_db ps) ''SELECT * FROM products WHERE id = ?'' [JNum id'] of
           (Inl e, d) \<Rightarrow> (Inl e, ps\<lparr>ps_db := d\<rparr>)
         | (Inr result, d) \<Rightarrow>
             (let ps1 = ps\<lparr>ps_db := d\<rparr> in
              if truthy result \<and> truthy (js_index0 result)
              then (Inr (js_index0 result),
                    ps1\<lparr>productCache := Map_set (productCache ps1) id' (js_index0 result)\<rparr>)
              else (Inr JNull, ps1))))"

definition ps_clearCache :: "'st ProductService \<Rightarrow> 'st ProductService" where
  "ps_clearCache ps =
     ps\<lparr>productCache := Map_clear (productCache ps), categoryCache := Map_clear (categoryCache ps)\<rparr>"

definition allowedSorts :: "jsval list" where
  "allowedSorts = [JStr ''price'', JStr ''name'', JStr ''category'']"

text \<open>
  The statement and the parameter list that \<^verbatim>\<open>listProducts\<close> builds, step by step as the
  source appends to \<^verbatim>\<open>sql\<close> and pushes to \<^verbatim>\<open>params\<close>.
\<close>

definition listProducts_statement :: "filters \<Rightarrow> string \<times> jsval list" where
  "listProducts_statement fs =
     (let sql0 = ''SELECT * FROM products WHERE 1=1'';
          params0 = [];
          (sql1, params1) =
            (if truthy (f_category fs)
             then (sql0 @ '' AND category = ?'', params0 @ [f_category fs]) else (sql0, params0));
          (sql2, params2) =
            (if f_minPrice fs \<noteq> JUndefined
             then (sql1 @ '' AND price >= ?'', params1 @ [f_minPrice fs]) else (sql1, params1));
          (sql3, params3) =
            (if f_maxPrice fs \<noteq> JUndefined
             then (sql2 @ '' AND price <= ?'', params2 @ [f_maxPrice fs]) else (sql2, params2));
          sql4 = (if truthy (f_inStock fs) then sql3 @ '' AND stock > 0'' else sql3);
          sql5 =
            (if truthy (f_sortBy fs)
             then (if f_sortBy fs \<in> set allowedSorts
                   then (let order = (if f_sortOrder fs = JStr ''desc'' then ''DESC'' else ''ASC'')
                         in sql4 @ '' ORDER BY '' @ to_string (f_sortBy fs) @ '' '' @ order)
                   else sql4)
             else sql4);
          (sql6, params6) =
            (if truthy (f_limit fs)
             then (sql5 @ '' LIMIT ?'', params3 @ [f_limit fs]) else (sql5, params3))
      in (sql6, params6))"

definition listProducts ::
  "'st executor \<Rightarrow> 'st ProductService \<Rightarrow> filters \<Rightarrow> (error + jsval) \<times> 'st ProductService" where
  "listProducts executeQuery ps fs =
     (case query executeQuery (ps_db ps) (fst (listProducts_statement fs))
             (snd (listProducts_statement fs)) of
        (Inl e, d) \<Rightarrow> (Inl e, ps\<lparr>ps_db := d\<rparr>)
      | (Inr results, d) \<Rightarrow>
          (case js_get results ''length'' of
             Inl e \<Rightarrow> (Inl e, ps\<lparr>ps_db := d\<rparr>)
           | Inr logged \<Rightarrow> (Inr results, ps\<lparr>ps_db := d\<rparr>)))"

definition createProduct ::
  "'st executor \<Rightarrow> 'st ProductService \<Rightarrow> productData
     \<Rightarrow> (error + jsval) \<times> 'st ProductService" where
  "createProduct executeQuery ps productData =
     (if js_not (of_str (pd_name productData)) \<or> js_not (of_num (pd_price productData))
         \<or> js_not (of_str (pd_category productData))
      then (Inl (Error ''Missing required product fields''), ps)
      else if (case pd_price productData of Some n \<Rightarrow> n < 0 | None \<Rightarrow> False)
      then (Inl (Error ''Price cannot be negative''), ps)
      else
        (case query executeQuery (ps_db ps)
                ''INSERT INTO products (name, description, price, category) VALUES (?, ?, ?, ?)''
                [of_str (pd_name productData),
                 js_or (of_str (pd_description productData)) (JStr []),
                 of_num (pd_price productData),
                 of_str (pd_category productData)] of
           (Inl e, d) \<Rightarrow> (Inl e, ps\<lparr>ps_db := d\<rparr>)
         | (Inr result, d) \<Rightarrow>
             (let ps1 = ps_clearCache (ps\<lparr>ps_db := d\<rparr>) in
              case js_get result ''insertId'' of
                Inl e \<Rightarrow> (Inl e, ps1)
              | Inr logged \<Rightarrow> (Inr result, ps1))))"

definition updateProduct ::
  "'st executor \<Rightarrow> 'st ProductService \<Rightarrow> int \<Rightarrow> productData
     \<Rightarrow> (error + jsval) \<times> 'st ProductService" where
  "updateProduct executeQuery ps id' productData =
     (case getProduct executeQuery ps id' of
        (Inl e, ps1) \<Rightarrow> (Inl e, ps1)
      | (Inr existing, ps1) \<Rightarrow>
          if js_not existing then (Inl (Error ''Product not found''), ps1)
          else
            (case query executeQuery (ps_db ps1)
                    ''UPDATE products SET name = ?, description = ?, price = ?, category = ? WHERE id = ?''
                    [js_or (of_str (pd_name productData)) (js_field existing ''name''),
                     js_or (of_str (pd_description productData)) (js_field existing ''description''),
                     (if of_num (pd_price productData) \<noteq> JUndefined
                      then of_num (pd_price productData) else js_field existing ''price''),
                     js_or (of_str (pd_category productData)) (js_field existing ''category''),
                     JNum id'] of
               (Inl e, d) \<Rightarrow> (Inl e, ps1\<lparr>ps_db := d\<rparr>)
             | (Inr result, d) \<Rightarrow> (Inr result, ps_clearCache (ps1\<lparr>ps_db := d\<rparr>))))"

definition deleteProduct ::
  "'st executor \<Rightarrow> 'st ProductService \<Rightarrow> int \<Rightarrow> (error + jsval) \<times> 'st ProductService" where
  "deleteProduct executeQuery ps id' =
     (case query executeQuery (ps_db ps) ''DELETE FROM products WHERE id = ?'' [JNum id'] of
        (Inl e, d) \<Rightarrow> (Inl e, ps\<lparr>ps_db := d\<rparr>)
      | (Inr result, d) \<Rightarrow> (Inr result, ps_clearCache (ps\<lparr>ps_db := d\<rparr>)))"

section \<open>OrderService and PaymentService\<close>

text \<open>
  Of \<^verbatim>\<open>OrderService\<close> only \<^verbatim>\<open>getOrder\<close> is needed below; its \<^verbatim>\<open>productService\<close> field is
  read by \<^verbatim>\<open>createOrder\<close> and \<^verbatim>\<open>calculateTotal\<close> alone and is left out.
\<close>

record 'st OrderService =
  os_db :: "'st DatabaseManager"

definition new_OrderService :: "'st DatabaseManager \<Rightarrow> 'st OrderService" where
  "new_OrderService dbManager = \<lparr> os_db = dbManager \<rparr>"

definition getOrder ::
  "'st executor \<Rightarrow> 'st OrderService \<Rightarrow> int \<Rightarrow> (error + jsval) \<times> 'st OrderService" where
  "getOrder executeQuery os id' =
     (case query executeQuery (os_db os) ''SELECT * FROM orders WHERE id = ?'' [JNum id'] of
        (Inl e, d) \<Rightarrow> (Inl e, os\<lparr>os_db := d\<rparr>)
      | (Inr result, d) \<Rightarrow>
          (case js_get0 result of
             Inl e \<Rightarrow> (Inl e, os\<lparr>os_db := d\<rparr>)
           | Inr order \<Rightarrow> (Inr order, os\<lparr>os_db := d\<rparr>)))"

text \<open>
  The constructor of \<^verbatim>\<open>PaymentService\<close> assigns \<^verbatim>\<open>this.orderService\<close> and nothing else,
  while \<^verbatim>\<open>updateOrderStatus\<close> reads \<^verbatim>\<open>this.db\<close>. The field is therefore optional in the
  model, and absent on every object the constructor builds.
\<close>

record 'st PaymentService =
  orderService :: "'st OrderService"
  pay_db :: "'st DatabaseManager option"

definition new_PaymentService :: "'st OrderService \<Rightarrow> 'st PaymentService" where
  "new_PaymentService os = \<lparr> orderService = os, pay_db = None \<rparr>"

text \<open>\<^verbatim>\<open>chargePayment\<close> simulates the charge: it always succeeds. \<open>now\<close> is \<^verbatim>\<open>Date.now()\<close>.\<close>

definition chargePayment :: "int \<Rightarrow> jsval \<Rightarrow> jsval \<Rightarrow> jsval" where
  "chargePayment now paymentMethod amount =
     JObj [(''success'', JBool True), (''transactionId'', JStr (''TXN'' @ to_string (JNum now)))]"

definition updateOrderStatus ::
  "'st executor \<Rightarrow> 'st PaymentService \<Rightarrow> int \<Rightarrow> string
     \<Rightarrow> (error + jsval) \<times> 'st PaymentService" where
  "updateOrderStatus executeQuery ps orderId status =
     (case pay_db ps of
        None \<Rightarrow> (Inl (TypeError ''Cannot read properties of undefined (reading 'query')''), ps)
      | Some d \<Rightarrow>
          (case query executeQuery d ''UPDATE orders SET status = ? WHERE id = ?''
                  [JStr status, JNum orderId] of
             (r, d1) \<Rightarrow> (r, ps\<lparr>pay_db := Some d1\<rparr>)))"

text \<open>
  \<^verbatim>\<open>processPayment\<close>, with the charge it delegates to as a parameter, so that the branch
  for a failed charge can be followed; the class's own \<^verbatim>\<open>chargePayment\<close> is put in below.
\<close>

definition processPayment_via ::
  "(jsval \<Rightarrow> jsval \<Rightarrow> jsval) \<Rightarrow> 'st executor \<Rightarrow> 'st PaymentService \<Rightarrow> int \<Rightarrow> jsval
     \<Rightarrow> (error + jsval) \<times> 'st PaymentService" where
  "processPayment_via charge executeQuery ps orderId paymentMethod =
     (case getOrder executeQuery (orderService ps) orderId of
        (Inl e, os) \<Rightarrow> (Inl e, ps\<lparr>orderService := os\<rparr>)
      | (Inr order, os) \<Rightarrow>
          (let ps1 = ps\<lparr>orderService := os\<rparr> in
           if js_not order then (Inl (Error ''Order not found''), ps1)
           else
             (let result = charge paymentMethod (js_field order ''total'') in
              case js_get result ''success'' of
                Inl e \<Rightarrow> (Inl e, ps1)
              | Inr success \<Rightarrow>
                  if truthy success
                  then
                    (case updateOrderStatus executeQuery ps1 orderId ''paid'' of
                       (Inl e, ps2) \<Rightarrow> (Inl e, ps2)
                     | (Inr updated, ps2) \<Rightarrow>
                         (Inr (JObj [(''success'', JBool True),
                                     (''transactionId'', js_field result ''transactionId'')]),
                          ps2))
                  else
                    (Inr (JObj [(''success'', JBool False),
                                (''error'', js_field result ''error'')]),
                     ps1))))"

definition processPayment ::
  "int \<Rightarrow> 'st executor \<Rightarrow> 'st PaymentService \<Rightarrow> int \<Rightarrow> jsval
     \<Rightarrow> (error + jsval) \<times> 'st PaymentService" where
  "processPayment now executeQuery ps orderId paymentMethod =
     processPayment_via (chargePayment now) executeQuery ps orderId paymentMethod"

section \<open>AuthenticationService\<close>

record session =
  userId :: jsval
  createdAt :: int
  lastActivity :: int

record AuthenticationService =
  sessions :: "(string \<times> session) list"
  sessionTimeout :: int
  maxSessions :: int

definition new_AuthenticationService :: AuthenticationService where
  "new_AuthenticationService = \<lparr> sessions = [], sessionTimeout = 3600000, maxSessions = 10000 \<rparr>"

text \<open>
  \<^verbatim>\<open>validateToken(token)\<close> at the time \<open>now\<close> that \<^verbatim>\<open>Date.now()\<close> gives. The session object
  is changed in place, so the entry keeps its place in the map.
\<close>

definition validateToken ::
  "int \<Rightarrow> AuthenticationService \<Rightarrow> string \<Rightarrow> bool \<times> AuthenticationService" where
  "validateToken now a token =
     (if \<not> Map_has (sessions a) token then (False, a)
      else
        (case map_of (sessions a) token of
           None \<Rightarrow> (False, a)
         | Some sessionData \<Rightarrow>
             if now - lastActivity sessionData > sessionTimeout a
             then (False, a\<lparr>sessions := Map_delete (sessions a) token\<rparr>)
             else (True,
                   a\<lparr>sessions := Map_set (sessions a) token (sessionData\<lparr>lastActivity := now\<rparr>)\<rparr>)))"

definition logout :: "AuthenticationService \<Rightarrow> string \<Rightarrow> bool \<times> AuthenticationService" where
  "logout a token =
     (if \<not> Map_has (sessions a) token then (False, a)
      else (True, a\<lparr>sessions := Map_delete (sessions a) token\<rparr>))"

definition cleanupExpiredSessions :: "int \<Rightarrow> AuthenticationService \<Rightarrow> AuthenticationService" where
  "cleanupExpiredSessions now a =
     (if int (length (sessions a)) > maxSessions a
      then a\<lparr>sessions := filter (\<lambda>p. \<not> (now - lastActivity (snd p) > sessionTimeout a)) (sessions a)\<rparr>
      else a)"

section \<open>Connecting\<close>

text \<open>
  What a run of \<^verbatim>\<open>connect\<close> does to the outside: the attempts to establish a connection
  and the pauses between them, in order.
\<close>

datatype event = Establish | Sleep int

subsection \<open>DatabaseManager.connect (JavaScript)\<close>

text \<open>
  \<^verbatim>\<open>establishConnection\<close> is not defined by the class: the parameter gives the outcome of
  its call number \<open>k\<close> (from 0) of this run, a connection handle or the exception thrown.
  Each failed call increments \<^verbatim>\<open>attempts\<close>, so the next call is call number \<open>attempts\<close>.
\<close>

function connect_loop ::
  "(nat \<Rightarrow> error + nat) \<Rightarrow> int \<Rightarrow> int \<Rightarrow> nat option \<Rightarrow> event list
     \<Rightarrow> (error + unit) \<times> nat option \<times> event list" where
  "connect_loop establishConnection retry attempts conn trace =
     (if attempts < retry then
        (case establishConnection (nat attempts) of
           Inr c \<Rightarrow> (Inr (), Some c, trace @ [Establish])
         | Inl e \<Rightarrow>
             if attempts + 1 \<ge> retry then (Inl e, conn, trace @ [Establish])
             else connect_loop establishConnection retry (attempts + 1) conn
                    (trace @ [Establish, Sleep (1000 * (attempts + 1))]))
      else (Inr (), conn, trace))"
  by pat_completeness auto
termination
  by (relation "measure (\<lambda>(e, retry, attempts, conn, trace). nat (retry - attempts))") auto

declare connect_loop.simps [simp del]

definition connect ::
  "(nat \<Rightarrow> error + nat) \<Rightarrow> 'st DatabaseManager
     \<Rightarrow> (error + unit) \<times> 'st DatabaseManager \<times> event list" where
  "connect establishConnection dbm =
     (case connect_loop establishConnection (retryAttempts dbm) 0 (connection dbm) [] of
        (r, conn, trace) \<Rightarrow> (r, dbm\<lparr>connection := conn\<rparr>, trace))"

section \<open>DatabaseManager (Java)\<close>

text \<open>
  The second half of the source is the Java variant of the connection manager. What the
  JDBC driver answers is a parameter: a connection carries the answers of \<^verbatim>\<open>isClosed()\<close>
  and \<^verbatim>\<open>isValid(5)\<close> and the exception \<^verbatim>\<open>setAutoCommit(false)\<close> throws, if any; the driver
  prepares and runs statements on the store.
\<close>

record jconnection =
  jc_isClosed :: "error + bool"
  jc_isValid :: "error + bool"
  jc_setAutoCommit :: "error option"

record statement =
  st_sql :: string
  st_params :: "(nat \<times> jsval) list"


text \<open>
  \<^verbatim>\<open>statementCache\<close> is a \<^verbatim>\<open>HashMap\<close>; the list holds its entries in the order its
  iterator gives them, and a new entry is put last.
\<close>

record 'st JDatabaseManager =
  connectionString :: string
  j_connection :: "jconnection option"
  statementCache :: "(string \<times> statement) list"
  maxCacheSize :: nat
  j_retryAttempts :: int
  connectionTimeout :: int
  j_store :: 'st

definition new_JDatabaseManager :: "string \<Rightarrow> 'st \<Rightarrow> 'st JDatabaseManager" where
  "new_JDatabaseManager cs st =
     \<lparr> connectionString = cs, j_connection = None, statementCache = [], maxCacheSize = 100,
       j_retryAttempts = 3, connectionTimeout = 30000, j_store = st \<rparr>"

text \<open>
  \<^verbatim>\<open>connect()\<close>: the \<^verbatim>\<open>catch\<close> covers \<^verbatim>\<open>getConnection\<close> and \<^verbatim>\<open>setAutoCommit\<close>; after the
  loop the method prints a line when an exception was seen, and returns.
\<close>

function j_connect_loop ::
  "(nat \<Rightarrow> error + jconnection) \<Rightarrow> int \<Rightarrow> int \<Rightarrow> error option \<Rightarrow> jconnection option
     \<Rightarrow> event list \<Rightarrow> (error + unit) \<times> jconnection option \<times> event list" where
  "j_connect_loop getConnection retry attempts lastException conn trace =
     (if attempts < retry then
        (case getConnection (nat attempts) of
           Inl e \<Rightarrow>
             j_connect_loop getConnection retry (attempts + 1) (Some e) conn
               (trace @ Establish # (if attempts + 1 < retry then [Sleep (1000 * (attempts + 1))] else []))
         | Inr c \<Rightarrow>
             (case jc_setAutoCommit c of
                None \<Rightarrow> (Inr (), Some c, trace @ [Establish])
              | Some e \<Rightarrow>
                  j_connect_loop getConnection retry (attempts + 1) (Some e) (Some c)
                    (trace @ Establish # (if attempts + 1 < retry then [Sleep (1000 * (attempts + 1))] else []))))
      else (Inr (), conn, trace))"
  by pat_completeness auto
termination
  by (relation "measure (\<lambda>(g, retry, attempts, l, conn, trace). nat (retry - attempts))") auto

declare j_connect_loop.simps [simp del]

definition j_connect ::
  "(nat \<Rightarrow> error + jconnection) \<Rightarrow> 'st JDatabaseManager
     \<Rightarrow> (error + unit) \<times> 'st JDatabaseManager \<times> event list" where
  "j_connect getConnection m =
     (case j_connect_loop getConnection (j_retryAttempts m) 0 None (j_connection m) [] of
        (r, conn, trace) \<Rightarrow> (r, m\<lparr>j_connection := conn\<rparr>, trace))"









section \<open>A store for the scenarios\<close>

text \<open>
  The SQL engine is outside the repository. For the concrete scenarios below, this small
  store keeps three tables of rows by identifier and answers the statements the services
  issue by identifier, as any SQL store answers them: a \<^verbatim>\<open>SELECT\<close> gives the array of the
  matching rows, an \<^verbatim>\<open>UPDATE\<close> or \<^verbatim>\<open>DELETE\<close> changes the table and reports the number of
  rows affected.
\<close>

record table_store =
  users_tbl :: "(int \<times> jsval) list"
  products_tbl :: "(int \<times> jsval) list"
  orders_tbl :: "(int \<times> jsval) list"

definition select_by_id :: "(int \<times> jsval) list \<Rightarrow> int \<Rightarrow> jsval" where
  "select_by_id tbl i = JArr (map snd (filter (\<lambda>p. fst p = i) tbl))"

definition affectedRows :: "(int \<times> jsval) list \<Rightarrow> int \<Rightarrow> jsval" where
  "affectedRows tbl i =
     JObj [(''affectedRows'', JNum (int (length (filter (\<lambda>p. fst p = i) tbl))))]"

fun id_param :: "jsval list \<Rightarrow> int option" where
  "id_param [JNum i] = Some i"
| "id_param ps = None"

fun user_update_params :: "jsval list \<Rightarrow> (jsval \<times> jsval \<times> jsval \<times> int) option" where
  "user_update_params [n, e, r, JNum i] = Some (n, e, r, i)"
| "user_update_params ps = None"

fun status_update_params :: "jsval list \<Rightarrow> (jsval \<times> int) option" where
  "status_update_params [s, JNum i] = Some (s, i)"
| "status_update_params ps = None"

definition user_row :: "int \<Rightarrow> jsval \<Rightarrow> jsval \<Rightarrow> jsval \<Rightarrow> jsval" where
  "user_row i n e r = JObj [(''id'', JNum i), (''name'', n), (''email'', e), (''role'', r)]"

definition order_row :: "int \<Rightarrow> int \<Rightarrow> int \<Rightarrow> jsval \<Rightarrow> jsval" where
  "order_row i u t s = JObj [(''id'', JNum i), (''user_id'', JNum u), (''total'', JNum t), (''status'', s)]"

definition set_status :: "jsval \<Rightarrow> jsval \<Rightarrow> jsval" where
  "set_status s row =
     JObj [(''id'', js_field row ''id''), (''user_id'', js_field row ''user_id''),
           (''total'', js_field row ''total''), (''status'', s)]"

definition table_exec :: "table_store executor" where
  "table_exec sql params st =
     (if sql = ''SELECT * FROM users WHERE id = ?'' then
        (case id_param params of
           Some i \<Rightarrow> (Inr (select_by_id (users_tbl st) i), st)
         | None \<Rightarrow> (Inl (Error ''bad parameters''), st))
      else if sql = ''UPDATE users SET name = ?, email = ?, role = ? WHERE id = ?'' then
        (case user_update_params params of
           Some (n, e, r, i) \<Rightarrow>
             (Inr (affectedRows (users_tbl st) i),
              st\<lparr>users_tbl := map (\<lambda>p. if fst p = i then (i, user_row i n e r) else p) (users_tbl st)\<rparr>)
         | None \<Rightarrow> (Inl (Error ''bad parameters''), st))
      else if sql = ''DELETE FROM users WHERE id = ?'' then
        (case id_param params of
           Some i \<Rightarrow>
             (Inr (affectedRows (users_tbl st) i),
              st\<lparr>users_tbl := filter (\<lambda>p. fst p \<noteq> i) (users_tbl st)\<rparr>)
         | None \<Rightarrow> (Inl (Error ''bad parameters''), st))
      else if sql = ''SELECT * FROM products WHERE id = ?'' then
        (case id_param params of
           Some i \<Rightarrow> (Inr (select_by_id (products_tbl st) i), st)
         | None \<Rightarrow> (Inl (Error ''bad parameters''), st))
      else if sql = ''DELETE FROM products WHERE id = ?'' then
        (case id_param params of
           Some i \<Rightarrow>
             (Inr (affectedRows (products_tbl st) i),
              st\<lparr>products_tbl := filter (\<lambda>p. fst p \<noteq> i) (products_tbl st)\<rparr>)
         | None \<Rightarrow> (Inl (Error ''bad parameters''), st))
      else if sql = ''SELECT * FROM orders WHERE id = ?'' then
        (case id_param params of
           Some i \<Rightarrow> (Inr (select_by_id (orders_tbl st) i), st)
         | None \<Rightarrow> (Inl (Error ''bad parameters''), st))
      else if sql = ''UPDATE orders SET status = ? WHERE id = ?'' then
        (case status_update_params params of
           Some (s, i) \<Rightarrow>
             (Inr (affectedRows (orders_tbl st) i),
              st\<lparr>orders_tbl := map (\<lambda>p. if fst p = i then (i, set_status s (snd p)) else p) (orders_tbl st)\<rparr>)
         | None \<Rightarrow> (Inl (Error ''bad parameters''), st))
      else (Inl (Error ''unsupported statement''), st))"

definition no_config :: config where
  "no_config = \<lparr> cfg_maxConnections = None, cfg_retryAttempts = None \<rparr>"

definition ann :: jsval where
  "ann = user_row 1 (JStr ''Ann'') (JStr ''ann@example.com'') (JStr ''admin'')"

definition shop :: table_store where
  "shop = \<lparr> users_tbl = [(1, ann)], products_tbl = [],
            orders_tbl = [(7, order_row 7 1 50 (JStr ''pending''))] \<rparr>"

definition shop_db :: "table_store DatabaseManager" where
  "shop_db = new_DatabaseManager no_config shop"

definition rename_to_bob :: userData where
  "rename_to_bob = \<lparr> ud_name = Some ''Bob'', ud_email = None, ud_role = None \<rparr>"

definition shop_after_delete :: "table_store DatabaseManager" where
  "shop_after_delete =
     shop_db\<lparr>queryCache := [(''DELETE FROM users WHERE id = ?:[1]'', JObj [(''affectedRows'', JNum 1)])],
             backend := shop\<lparr>users_tbl := []\<rparr>\<rparr>"

definition tok_session :: session where
  "tok_session = \<lparr> userId = JNum 1, createdAt = 1000, lastActivity = 1000 \<rparr>"

definition one_session :: AuthenticationService where
  "one_session = new_AuthenticationService\<lparr>sessions := [(''tok'', tok_session)]\<rparr>"

definition validated_session :: AuthenticationService where
  "validated_session =
     new_AuthenticationService\<lparr>sessions := [(''tok'', tok_session\<lparr>lastActivity := 2000\<rparr>)]\<rparr>"

definition injected_filters :: filters where
  "injected_filters =
     \<lparr> f_category = JStr ''tools'', f_minPrice = JNum 5, f_maxPrice = JUndefined,
       f_inStock = JUndefined, f_sortBy = JStr ''; DROP TABLE products'',
       f_sortOrder = JStr ''desc'', f_limit = JNum 10 \<rparr>"

definition sorted_filters :: filters where
  "sorted_filters = injected_filters\<lparr>f_sortBy := JStr ''price''\<rparr>"

text \<open>
  A run of queries one after the other, their cache keys, and the requests and the store
  (one that answers every statement) of the cache scenarios.
\<close>

definition cache_key :: "string \<times> jsval list \<Rightarrow> string" where
  "cache_key r = generateCacheKey (fst r) (snd r)"

definition query_all ::
  "'st executor \<Rightarrow> 'st DatabaseManager \<Rightarrow> (string \<times> jsval list) list \<Rightarrow> 'st DatabaseManager" where
  "query_all ex dbm reqs = foldl (\<lambda>d r. snd (query ex d (fst r) (snd r))) dbm reqs"

definition echo_exec :: "unit executor" where
  "echo_exec sql params st = (Inr (JArr params), st)"

definition user_request :: "nat \<Rightarrow> string \<times> jsval list" where
  "user_request i = (''SELECT * FROM users WHERE id = ?'', [JNum (int i)])"

definition user_requests :: "nat \<Rightarrow> (string \<times> jsval list) list" where
  "user_requests n = map user_request [0..<n]"

definition fresh_db :: "unit DatabaseManager" where
  "fresh_db = new_DatabaseManager no_config ()"

definition full_db :: "unit DatabaseManager" where
  "full_db = query_all echo_exec fresh_db (user_requests 1001)"

definition bob :: jsval where
  "bob = user_row 1 (JStr ''Bob'') (JStr ''ann@example.com'') (JStr ''admin'')"

definition free_widget :: productData where
  "free_widget = \<lparr> pd_name = Some ''Widget'', pd_description = None, pd_price = Some 0,
                    pd_category = Some ''tools'' \<rparr>"

text \<open>
  The trace of a run of \<^verbatim>\<open>connect\<close> up to its attempt number \<open>k\<close> (from 0), when the pause
  after the failed attempt \<open>i\<close> is \<open>1000 * i\<close> milliseconds; and two drivers that refuse
  every connection.
\<close>

fun pauses :: "nat \<Rightarrow> event list" where
  "pauses 0 = []"
| "pauses (Suc k) = pauses k @ [Establish, Sleep (1000 * int (Suc k))]"

definition refusing :: "nat \<Rightarrow> error + nat" where
  "refusing k = Inl (Error (''attempt '' @ digits (Suc k) @ '' refused''))"

definition j_refusing :: "nat \<Rightarrow> error + jconnection" where
  "j_refusing k = Inl (SQLException (''attempt '' @ digits (Suc k) @ '' refused''))"

definition java_db :: "unit JDatabaseManager" where
  "java_db = new_JDatabaseManager ''jdbc:shop'' ()"













text \<open>
  The values on which \<open>stringify\<close> is \<^verbatim>\<open>JSON.stringify\<close>: a number is an integer that a
  JavaScript number holds exactly and writes in decimal digits (at most \<open>2^53 - 1\<close> in
  absolute value; from \<open>10^21\<close> on JavaScript writes an exponent); an object has distinct
  keys, none of which begins with a digit, so that none is an integer-like key, which
  JavaScript would enumerate before the others whatever the insertion order.
\<close>

definition starts_with_digit :: "string \<Rightarrow> bool" where
  "starts_with_digit k =
     (case k of [] \<Rightarrow> False | c # rest \<Rightarrow> 48 \<le> (of_char c :: nat) \<and> (of_char c :: nat) \<le> 57)"

fun plain :: "jsval \<Rightarrow> bool"
  and plain_elems :: "jsval list \<Rightarrow> bool"
  and plain_props :: "(string \<times> jsval) list \<Rightarrow> bool" where
  "plain JUndefined = True"
| "plain JNull = True"
| "plain (JBool b) = True"
| "plain (JNum n) = (- 9007199254740991 \<le> n \<and> n \<le> 9007199254740991)"
| "plain (JStr s) = True"
| "plain (JArr xs) = plain_elems xs"
| "plain (JObj ps) = (distinct (map fst ps) \<and> plain_props ps)"
| "plain_elems [] = True"
| "plain_elems (x # xs) = (plain x \<and> plain_elems xs)"
| "plain_props [] = True"
| "plain_props ((k, v) # ps) = (\<not> starts_with_digit k \<and> plain v \<and> plain_props ps)"

definition mixed_params :: "jsval list" where
  "mixed_params =
     [JNum (- 5), JStr (''a'' @ [CHR 0x22] @ ''b'' @ [CHR 0x5C] @ ''c'' @ [CHR 0x0A]), JUndefined,
      JNull, JBool True, JBool False, JArr [JNum 1, JNum 20],
      JObj [(''k'', JStr ''v''), (''u'', JUndefined), (''n'', JNum 0)]]"

definition mixed_json :: string where
  "mixed_json =
     ''[-5,'' @ [CHR 0x22] @ ''a'' @ [CHR 0x5C, CHR 0x22] @ ''b'' @ [CHR 0x5C, CHR 0x5C] @ ''c''
       @ [CHR 0x5C] @ ''n'' @ [CHR 0x22] @ '',null,null,true,false,[1,20],{''
       @ [CHR 0x22] @ ''k'' @ [CHR 0x22] @ '':'' @ [CHR 0x22] @ ''v'' @ [CHR 0x22] @ '',''
       @ [CHR 0x22] @ ''n'' @ [CHR 0x22] @ '':0}]''"

definition select_range :: string where
  "select_range = ''SELECT * FROM products WHERE price <= ? AND stock >= ?''"

definition after_first :: "unit DatabaseManager" where
  "after_first = snd (query echo_exec fresh_db select_range [JNum 100, JNum 0])"

text \<open>
  A store that records every statement it is given, with its parameters, and answers with
  no rows; a product service on it; and filters whose only entry is a \<open>sortBy\<close> that is
  the name of the table.
\<close>

definition recording_exec :: "((string \<times> jsval list) list) executor" where
  "recording_exec sql params log = (Inr (JArr []), log @ [(sql, params)])"

definition recorder :: "((string \<times> jsval list) list) ProductService" where
  "recorder = new_ProductService (new_DatabaseManager no_config [])"

definition products_filters :: filters where
  "products_filters =
     \<lparr> f_category = JUndefined, f_minPrice = JUndefined, f_maxPrice = JUndefined,
       f_inStock = JUndefined, f_sortBy = JStr ''products'', f_sortOrder = JUndefined,
       f_limit = JUndefined \<rparr>"

section \<open>Properties\<close>

subsection \<open>The map operations\<close>

lemma Map_has_set: "Map_has (Map_set m k v) k"
  by (induction m) (auto simp: Map_has_def)

lemma map_of_Map_set: "map_of (Map_set m k v) = (map_of m)(k \<mapsto> v)"
  by (induction m) (auto simp: fun_eq_iff)

lemma Map_get_set: "Map_get (Map_set m k v) k = v"
  by (simp add: Map_get_def map_of_Map_set)

lemma Map_set_fresh: "\<not> Map_has m k \<Longrightarrow> Map_set m k v = m @ [(k, v)]"
  by (induction m) (auto simp: Map_has_def)

subsection \<open>The query cache answers a repeated statement\<close>

lemma query_hit:
  "Map_has (queryCache dbm) (generateCacheKey sql params) \<Longrightarrow>
   query ex dbm sql params = (Inr (Map_get (queryCache dbm) (generateCacheKey sql params)), dbm)"
  by (simp add: query_def)

lemma query_result_cached:
  assumes "query ex dbm sql params = (Inr r, dbm1)"
  shows "Map_has (queryCache dbm1) (generateCacheKey sql params)
         \<and> Map_get (queryCache dbm1) (generateCacheKey sql params) = r"
proof (cases "Map_has (queryCache dbm) (generateCacheKey sql params)")
  case True
  with assms show ?thesis by (auto simp: query_def)
next
  case False
  with assms show ?thesis
    by (auto simp: query_def Let_def Map_has_set Map_get_set split: prod.splits sum.splits if_splits)
qed

lemma first_delete_runs:
  "query table_exec shop_db ''DELETE FROM users WHERE id = ?'' [JNum 1]
     = (Inr (JObj [(''affectedRows'', JNum 1)]), shop_after_delete)"
  by code_simp

subsection \<open>Sessions\<close>

lemma Map_has_map_of: "Map_has m k \<longleftrightarrow> map_of m k \<noteq> None"
  by (simp add: Map_has_def map_of_eq_None_iff)

lemma Map_has_delete: "\<not> Map_has (Map_delete m k) k"
  by (auto simp: Map_has_def Map_delete_def)

lemma validateToken_absent:
  "\<not> Map_has (sessions a) token \<Longrightarrow> validateToken now a token = (False, a)"
  by (simp add: validateToken_def)

lemma validateToken_expired:
  "map_of (sessions a) token = Some sd \<Longrightarrow> now - lastActivity sd > sessionTimeout a \<Longrightarrow>
   validateToken now a token = (False, a\<lparr>sessions := Map_delete (sessions a) token\<rparr>)"
  by (simp add: validateToken_def Map_has_map_of)

lemma validateToken_fresh:
  "map_of (sessions a) token = Some sd \<Longrightarrow> \<not> now - lastActivity sd > sessionTimeout a \<Longrightarrow>
   validateToken now a token
     = (True, a\<lparr>sessions := Map_set (sessions a) token (sd\<lparr>lastActivity := now\<rparr>)\<rparr>)"
  by (simp add: validateToken_def Map_has_map_of)

lemma validateToken_True_D:
  assumes "validateToken T a token = (True, a')"
  shows "\<exists>sd. map_of (sessions a') token = Some sd \<and> lastActivity sd = T"
    and "sessionTimeout a' = sessionTimeout a"
  using assms
  by (auto simp: validateToken_def map_of_Map_set split: if_splits option.splits)

text \<open>
  C8. \<^verbatim>\<open>validateToken(token)\<close> at time \<open>now\<close>: for a token with no session it returns false
  and changes nothing; for a session idle for more than \<open>sessionTimeout\<close> it returns false
  and removes the session; otherwise it sets the session's \<open>lastActivity\<close> to \<open>now\<close> and
  returns true. Hence the sliding window: after a validation at time \<open>T\<close> that returned true,
  the next validation returns true at any time before \<open>T + sessionTimeout\<close>, and returns
  false (and removes the session) at any time after \<open>T + sessionTimeout\<close>.
\<close>

theorem validateToken_sliding_window:
  "(\<not> Map_has (sessions a) token \<longrightarrow> validateToken now a token = (False, a))
   \<and> (map_of (sessions a) token = Some sd \<longrightarrow> now - lastActivity sd > sessionTimeout a \<longrightarrow>
        validateToken now a token = (False, a\<lparr>sessions := Map_delete (sessions a) token\<rparr>)
        \<and> \<not> Map_has (Map_delete (sessions a) token) token)
   \<and> (map_of (sessions a) token = Some sd \<longrightarrow> now - lastActivity sd \<le> sessionTimeout a \<longrightarrow>
        validateToken now a token
          = (True, a\<lparr>sessions := Map_set (sessions a) token (sd\<lparr>lastActivity := now\<rparr>)\<rparr>)
        \<and> map_of (Map_set (sessions a) token (sd\<lparr>lastActivity := now\<rparr>)) token
            = Some (sd\<lparr>lastActivity := now\<rparr>))
   \<and> (validateToken T a token = (True, a') \<longrightarrow>
        (t < T + sessionTimeout a \<longrightarrow> fst (validateToken t a' token))
        \<and> (T + sessionTimeout a < t \<longrightarrow> \<not> fst (validateToken t a' token)
             \<and> \<not> Map_has (sessions (snd (validateToken t a' token))) token))"
proof (intro conjI impI)
  assume v: "validateToken T a token = (True, a')"
  from validateToken_True_D [OF v] obtain sd where
    sd: "map_of (sessions a') token = Some sd" "lastActivity sd = T"
    and w: "sessionTimeout a' = sessionTimeout a" by blast
  { assume "t < T + sessionTimeout a"
    with sd w have "\<not> t - lastActivity sd > sessionTimeout a'" by simp
    from validateToken_fresh [OF sd(1) this]
    show "fst (validateToken t a' token)" by simp }
  { assume "T + sessionTimeout a < t"
    with sd w have "t - lastActivity sd > sessionTimeout a'" by simp
    from validateToken_expired [OF sd(1) this]
    show "\<not> fst (validateToken t a' token)"
      and "\<not> Map_has (sessions (snd (validateToken t a' token))) token"
      by (simp_all add: Map_has_delete) }
qed (simp_all add: validateToken_absent validateToken_expired validateToken_fresh
       Map_has_delete map_of_Map_set)

text \<open>
  A session last active at 1000, with the timeout of one hour: validated at 2000, it is
  valid one millisecond before 2000 + 3600000 and gone one millisecond after; left alone
  until 3601001, it is expired; an unknown token is refused.
\<close>

theorem validateToken_sliding_window_witness:
  "validateToken 2000 one_session ''tok'' = (True, validated_session)
   \<and> fst (validateToken 3601999 validated_session ''tok'')
   \<and> \<not> fst (validateToken 3602001 validated_session ''tok'')
   \<and> validateToken 3601001 one_session ''tok''
       = (False, one_session\<lparr>sessions := Map_delete (sessions one_session) ''tok''\<rparr>)
   \<and> validateToken 2000 new_AuthenticationService ''tok'' = (False, new_AuthenticationService)"
proof -
  have timeout: "sessionTimeout one_session = 3600000"
    by (simp add: one_session_def new_AuthenticationService_def)
  have present: "map_of (sessions one_session) ''tok'' = Some tok_session"
    by (simp add: one_session_def)
  have idle: "lastActivity tok_session = 1000"
    by (simp add: tok_session_def)
  have absent: "\<not> Map_has (sessions new_AuthenticationService) ''tok''"
    by (simp add: new_AuthenticationService_def Map_has_def)
  have set: "Map_set (sessions one_session) ''tok'' (tok_session\<lparr>lastActivity := 2000\<rparr>)
      = [(''tok'', tok_session\<lparr>lastActivity := 2000\<rparr>)]"
    by (simp add: one_session_def)
  from validateToken_sliding_window
         [where a = one_session and token = "''tok''" and now = 2000 and sd = tok_session]
       present idle timeout set
  have first: "validateToken 2000 one_session ''tok'' = (True, validated_session)"
    by (simp add: validated_session_def one_session_def)
  from validateToken_sliding_window
         [where a = one_session and token = "''tok''" and T = 2000 and a' = validated_session
            and t = 3601999] first timeout
  have before: "fst (validateToken 3601999 validated_session ''tok'')" by simp
  from validateToken_sliding_window
         [where a = one_session and token = "''tok''" and T = 2000 and a' = validated_session
            and t = 3602001] first timeout
  have after: "\<not> fst (validateToken 3602001 validated_session ''tok'')" by simp
  from validateToken_sliding_window
         [where a = one_session and token = "''tok''" and now = 3601001 and sd = tok_session]
       present idle timeout
  have expired: "validateToken 3601001 one_session ''tok''
       = (False, one_session\<lparr>sessions := Map_delete (sessions one_session) ''tok''\<rparr>)"
    by simp
  from validateToken_sliding_window
         [where a = new_AuthenticationService and token = "''tok''" and now = 2000] absent
  have unknown: "validateToken 2000 new_AuthenticationService ''tok''
       = (False, new_AuthenticationService)"
    by simp
  from first before after expired unknown show ?thesis by simp
qed

subsection \<open>The statement of listProducts\<close>

lemma statement_text:
  "fst (listProducts_statement fs) =
     ''SELECT * FROM products WHERE 1=1''
     @ (if truthy (f_category fs) then '' AND category = ?'' else [])
     @ (if f_minPrice fs \<noteq> JUndefined then '' AND price >= ?'' else [])
     @ (if f_maxPrice fs \<noteq> JUndefined then '' AND price <= ?'' else [])
     @ (if truthy (f_inStock fs) then '' AND stock > 0'' else [])
     @ (if truthy (f_sortBy fs) \<and> f_sortBy fs \<in> set allowedSorts
        then '' ORDER BY '' @ to_string (f_sortBy fs)
             @ (if f_sortOrder fs = JStr ''desc'' then '' DESC'' else '' ASC'')
        else [])
     @ (if truthy (f_limit fs) then '' LIMIT ?'' else [])"
  by (simp add: listProducts_statement_def Let_def)

lemma statement_params:
  "snd (listProducts_statement fs) =
     (if truthy (f_category fs) then [f_category fs] else [])
     @ (if f_minPrice fs \<noteq> JUndefined then [f_minPrice fs] else [])
     @ (if f_maxPrice fs \<noteq> JUndefined then [f_maxPrice fs] else [])
     @ (if truthy (f_limit fs) then [f_limit fs] else [])"
  by (simp add: listProducts_statement_def Let_def)

lemma allowed_truthy: "v \<in> set allowedSorts \<Longrightarrow> truthy v"
  by (auto simp: allowedSorts_def)

lemma allowed_column:
  "v \<in> set allowedSorts \<Longrightarrow> to_string v \<in> {''price'', ''name'', ''category''}"
  by (auto simp: allowedSorts_def)

text \<open>The letter Y occurs in no fragment of the statement but the sort clause.\<close>

lemma no_Y_no_order_by: "CHR ''Y'' \<notin> set s \<Longrightarrow> \<not> sublist ''ORDER BY'' s"
proof
  assume a: "CHR ''Y'' \<notin> set s" and b: "sublist ''ORDER BY'' s"
  from b have "set ''ORDER BY'' \<subseteq> set s" by (rule set_mono_sublist)
  with a show False by simp
qed

lemma unsorted_no_Y:
  "f_sortBy fs \<notin> set allowedSorts \<Longrightarrow> CHR ''Y'' \<notin> set (fst (listProducts_statement fs))"
  by (simp add: statement_text)

lemma unsorted_statement:
  assumes "f_sortBy fs \<notin> set allowedSorts" and "v \<notin> set allowedSorts"
  shows "listProducts_statement (fs\<lparr>f_sortBy := v\<rparr>) = listProducts_statement fs"
proof (rule prod_eqI)
  from assms show "fst (listProducts_statement (fs\<lparr>f_sortBy := v\<rparr>)) = fst (listProducts_statement fs)"
    by (simp add: statement_text)
  show "snd (listProducts_statement (fs\<lparr>f_sortBy := v\<rparr>)) = snd (listProducts_statement fs)"
    by (simp add: statement_params)
qed

lemma sorted_statement:
  assumes "f_sortBy fs \<in> set allowedSorts"
  shows "fst (listProducts_statement fs)
        = fst (listProducts_statement (fs\<lparr>f_sortBy := JUndefined, f_limit := JUndefined\<rparr>))
          @ '' ORDER BY '' @ to_string (f_sortBy fs)
          @ (if f_sortOrder fs = JStr ''desc'' then '' DESC'' else '' ASC'')
          @ (if truthy (f_limit fs) then '' LIMIT ?'' else [])"
  using assms allowed_truthy [OF assms] by (simp add: statement_text)

lemma statement_text_cong:
  assumes "truthy (f_category fs2) = truthy (f_category fs)"
    and "(f_minPrice fs2 = JUndefined) = (f_minPrice fs = JUndefined)"
    and "(f_maxPrice fs2 = JUndefined) = (f_maxPrice fs = JUndefined)"
    and "truthy (f_inStock fs2) = truthy (f_inStock fs)"
    and "f_sortBy fs2 = f_sortBy fs" and "f_sortOrder fs2 = f_sortOrder fs"
    and "truthy (f_limit fs2) = truthy (f_limit fs)"
  shows "fst (listProducts_statement fs2) = fst (listProducts_statement fs)"
  using assms by (simp add: statement_text)

subsection \<open>Eviction from the query cache\<close>

lemma foldl_delete:
  "foldl (\<lambda>m p. Map_delete m (fst p)) m xs = filter (\<lambda>p. fst p \<notin> fst ` set xs) m"
proof (induction xs arbitrary: m)
  case Nil
  show ?case by simp
next
  case (Cons x xs)
  have "foldl (\<lambda>m p. Map_delete m (fst p)) m (x # xs)
      = filter (\<lambda>p. fst p \<notin> fst ` set xs) (Map_delete m (fst x))"
    by (simp add: Cons.IH)
  also have "\<dots> = filter (\<lambda>p. fst p \<notin> fst ` set (x # xs)) m"
    by (auto simp: Map_delete_def intro: filter_cong)
  finally show ?case .
qed

lemma filter_prefix_keys:
  assumes "distinct (map fst (xs @ ys))"
  shows "filter (\<lambda>p. fst p \<notin> fst ` set xs) (xs @ ys) = ys"
proof -
  have "filter (\<lambda>p. fst p \<notin> fst ` set xs) xs = []"
    by (simp add: filter_empty_conv)
  moreover from assms have "filter (\<lambda>p. fst p \<notin> fst ` set xs) ys = ys"
    by (auto simp: filter_id_conv)
  ultimately show ?thesis by simp
qed

lemma delete_oldest:
  assumes "distinct (map fst c)"
  shows "foldl (\<lambda>m p. Map_delete m (fst p)) c (take n c) = drop n c"
proof -
  from assms have "distinct (map fst (take n c @ drop n c))" by simp
  from filter_prefix_keys [OF this] show ?thesis by (simp add: foldl_delete)
qed

lemma clearOldest_drop:
  "distinct (map fst (queryCache dbm)) \<Longrightarrow>
   queryCache (clearOldestCacheEntries dbm) = drop 100 (queryCache dbm)"
  by (simp add: clearOldestCacheEntries_def Let_def delete_oldest)

lemma query_miss:
  assumes "\<not> Map_has (queryCache dbm) (generateCacheKey sql params)"
    and "ex sql params (backend dbm) = (Inr r, st)"
    and "distinct (map fst (queryCache dbm))"
  shows "queryCache (snd (query ex dbm sql params))
       = (if length (queryCache dbm) > 1000 then drop 100 (queryCache dbm) else queryCache dbm)
         @ [(generateCacheKey sql params, r)]"
proof -
  have "\<not> Map_has (drop 100 (queryCache dbm)) (generateCacheKey sql params)"
    using assms(1) by (auto simp: Map_has_def dest: in_set_dropD)
  with assms show ?thesis
    by (simp add: query_def Let_def clearOldest_drop Map_set_fresh)
qed

lemma query_cache_cases:
  "queryCache (snd (query ex dbm sql params)) = queryCache dbm
   \<or> (\<not> Map_has (queryCache dbm) (generateCacheKey sql params)
       \<and> (\<exists>r st. ex sql params (backend dbm) = (Inr r, st)))"
  by (auto simp: query_def Let_def split: prod.splits sum.splits)

lemma query_inv:
  assumes "distinct (map fst (queryCache dbm))" and "length (queryCache dbm) \<le> 1001"
  shows "distinct (map fst (queryCache (snd (query ex dbm sql params))))
       \<and> length (queryCache (snd (query ex dbm sql params))) \<le> 1001"
  using query_cache_cases [of ex dbm sql params]
proof
  assume "queryCache (snd (query ex dbm sql params)) = queryCache dbm"
  with assms show ?thesis by simp
next
  assume "\<not> Map_has (queryCache dbm) (generateCacheKey sql params)
       \<and> (\<exists>r st. ex sql params (backend dbm) = (Inr r, st))"
  then obtain r st where m: "\<not> Map_has (queryCache dbm) (generateCacheKey sql params)"
    and e: "ex sql params (backend dbm) = (Inr r, st)" by blast
  have fresh: "generateCacheKey sql params \<notin> fst ` set (drop 100 (queryCache dbm))"
    using m by (auto simp: Map_has_def dest: in_set_dropD)
  have fresh': "generateCacheKey sql params \<notin> fst ` set (queryCache dbm)"
    using m by (auto simp: Map_has_def)
  from assms(1) have dd: "distinct (map fst (drop 100 (queryCache dbm)))"
    by (simp add: drop_map [symmetric])
  note step = query_miss [where ex = ex, OF m e assms(1)]
  from assms dd fresh fresh'
  have "distinct (map fst (queryCache (snd (query ex dbm sql params))))"
    by (simp add: step)
  moreover from assms(2)
  have "length (queryCache (snd (query ex dbm sql params))) \<le> 1001"
    by (simp add: step, linarith)
  ultimately show ?thesis by simp
qed

lemma query_all_inv:
  "distinct (map fst (queryCache dbm)) \<Longrightarrow> length (queryCache dbm) \<le> 1001 \<Longrightarrow>
   distinct (map fst (queryCache (query_all ex dbm reqs)))
   \<and> length (queryCache (query_all ex dbm reqs)) \<le> 1001"
proof (induction reqs arbitrary: dbm)
  case Nil
  then show ?case by (simp add: query_all_def)
next
  case (Cons r reqs)
  from query_inv [OF Cons.prems, of ex "fst r" "snd r"]
  have "distinct (map fst (queryCache (snd (query ex dbm (fst r) (snd r)))))"
    and "length (queryCache (snd (query ex dbm (fst r) (snd r)))) \<le> 1001" by simp_all
  from Cons.IH [OF this] show ?case by (simp add: query_all_def)
qed

lemma evicted_le: "100 * ((n - 902) div 100) \<le> (n::nat)"
proof -
  have "100 * ((n - 902) div 100) \<le> n - 902" by simp
  then show ?thesis by simp
qed

lemma step_evict:
  assumes "(n::nat) - 100 * ((n - 902) div 100) > 1000"
  shows "100 * ((Suc n - 902) div 100) = 100 * ((n - 902) div 100) + 100"
proof -
  from assms have ge: "n \<ge> 902" by (cases "n < 902") simp_all
  define k where "k = n - 902"
  with ge have n: "n = 902 + k" by simp
  have k: "k = 100 * (k div 100) + k mod 100" by simp
  have lt: "k mod 100 < 100" by simp
  from assms have "902 + k - 100 * (k div 100) > 1000" unfolding n by simp
  with k lt have "k mod 100 = 99" by linarith
  then have "Suc k div 100 = Suc (k div 100)" by (simp add: div_Suc mod_Suc)
  moreover have "Suc n - 902 = Suc k" unfolding n by simp
  ultimately show ?thesis unfolding n by simp
qed

lemma step_keep:
  assumes "\<not> (n::nat) - 100 * ((n - 902) div 100) > 1000"
  shows "100 * ((Suc n - 902) div 100) = 100 * ((n - 902) div 100)"
proof (cases "n < 902")
  case True then show ?thesis by simp
next
  case False
  define k where "k = n - 902"
  with False have n: "n = 902 + k" by simp
  have k: "k = 100 * (k div 100) + k mod 100" by simp
  have lt: "k mod 100 < 100" by simp
  from assms have "902 + k - 100 * (k div 100) \<le> 1000" unfolding n by simp
  with k lt have "k mod 100 \<noteq> 99" by linarith
  then have "Suc k div 100 = k div 100" by (simp add: div_Suc mod_Suc)
  moreover have "Suc n - 902 = Suc k" unfolding n by simp
  ultimately show ?thesis unfolding n by simp
qed

lemma query_all_snoc:
  "query_all ex dbm (reqs @ [r]) = snd (query ex (query_all ex dbm reqs) (fst r) (snd r))"
  by (simp add: query_all_def)

lemma query_all_fifo:
  assumes ok: "\<And>sql ps st. \<exists>r. fst (ex sql ps st) = Inr r"
    and empty: "queryCache dbm = []"
  shows "distinct (map cache_key reqs) \<Longrightarrow>
         map fst (queryCache (query_all ex dbm reqs))
           = drop (100 * ((length reqs - 902) div 100)) (map cache_key reqs)"
proof (induction reqs rule: rev_induct)
  case Nil
  show ?case by (simp add: query_all_def empty)
next
  case (snoc r reqs)
  define d where "d = query_all ex dbm reqs"
  define n where "n = length reqs"
  define m where "m = 100 * ((n - 902) div 100)"
  define ks where "ks = map cache_key reqs"
  from snoc.prems have dist: "distinct ks" and new: "cache_key r \<notin> set ks"
    by (simp_all add: ks_def)
  from snoc.IH dist have keys: "map fst (queryCache d) = drop m ks"
    by (simp add: d_def m_def n_def ks_def)
  have len: "length (queryCache d) = n - m"
    using arg_cong [OF keys, of length] by (simp add: ks_def n_def)
  have mn: "m \<le> n" unfolding m_def by (rule evicted_le)
  from keys dist have dk: "distinct (map fst (queryCache d))" by simp
  from keys new have miss: "\<not> Map_has (queryCache d) (generateCacheKey (fst r) (snd r))"
    by (auto simp: Map_has_def cache_key_def dest: in_set_dropD)
  from ok [of "fst r" "snd r" "backend d"] obtain res st
    where run: "ex (fst r) (snd r) (backend d) = (Inr res, st)"
    by (cases "ex (fst r) (snd r) (backend d)") auto
  note step = query_miss [where ex = ex, OF miss run dk]
  have lks: "length ks = n" by (simp add: ks_def n_def)
  have len': "length (reqs @ [r]) = Suc n" by (simp add: n_def)
  have ks': "map cache_key (reqs @ [r]) = ks @ [cache_key r]" by (simp add: ks_def)
  have cache: "map fst (queryCache (query_all ex dbm (reqs @ [r])))
      = (if n - m > 1000 then drop (m + 100) ks else drop m ks) @ [cache_key r]"
    using keys by (simp add: query_all_snoc d_def [symmetric] step len cache_key_def
                     drop_map [symmetric] add.commute)
  show ?case
  proof (cases "n - m > 1000")
    case True
    then have m': "100 * ((Suc n - 902) div 100) = m + 100"
      unfolding m_def by (rule step_evict)
    from True have "m + 100 \<le> length ks" by (simp add: lks)
    then have "drop (m + 100) (ks @ [cache_key r]) = drop (m + 100) ks @ [cache_key r]"
      by simp
    with True cache show ?thesis
      by (simp only: len' ks' m' if_True)
  next
    case False
    then have m': "100 * ((Suc n - 902) div 100) = m"
      unfolding m_def by (rule step_keep)
    from mn have "drop m (ks @ [cache_key r]) = drop m ks @ [cache_key r]"
      by (simp add: lks)
    with False cache show ?thesis
      by (simp only: len' ks' m' if_False)
  qed
qed

lemma digits_nonempty: "digits n \<noteq> []"
  by (subst digits.simps) simp

lemma digits_small: "n < 10 \<Longrightarrow> digits n = [char_of (48 + n)]"
  by (subst digits.simps) simp

lemma digits_big: "\<not> n < 10 \<Longrightarrow> digits n = digits (n div 10) @ [char_of (48 + n mod 10)]"
  by (subst digits.simps) simp

lemma digit_char_inj:
  assumes "a < 10" and "b < 10" and "char_of (48 + a) = (char_of (48 + b) :: char)"
  shows "a = (b::nat)"
proof -
  from arg_cong [OF assms(3), of "of_char :: char \<Rightarrow> nat"]
  have "(48 + a) mod 256 = (48 + b) mod 256"
    by simp
  moreover from assms(1) have "(48 + a) mod 256 = 48 + a" by simp
  moreover from assms(2) have "(48 + b) mod 256 = 48 + b" by simp
  ultimately show ?thesis by simp
qed

lemma digits_inj: "digits m = digits n \<Longrightarrow> m = n"
proof (induction m arbitrary: n rule: digits.induct)
  case (1 m)
  show ?case
  proof (cases "m < 10")
    case True
    note m = this
    show ?thesis
    proof (cases "n < 10")
      case True
      with m "1.prems" show ?thesis
        by (auto simp: digits_small dest: digit_char_inj)
    next
      case False
      with m "1.prems" digits_nonempty [of "n div 10"] show ?thesis
        by (simp add: digits_small digits_big)
    qed
  next
    case False
    note m = this
    show ?thesis
    proof (cases "n < 10")
      case True
      with m "1.prems" digits_nonempty [of "m div 10"] show ?thesis
        by (simp add: digits_small digits_big)
    next
      case False
      with m "1.prems" have a: "digits (m div 10) = digits (n div 10)"
        and b: "char_of (48 + m mod 10) = (char_of (48 + n mod 10) :: char)"
        by (simp_all add: digits_big)
      from "1.IH" [OF m a] have "m div 10 = n div 10" .
      moreover from b have "m mod 10 = n mod 10"
        by (intro digit_char_inj) simp_all
      ultimately show ?thesis by (metis div_mult_mod_eq)
    qed
  qed
qed

lemma user_request_key:
  "cache_key (user_request i) = ''SELECT * FROM users WHERE id = ?:['' @ digits i @ '']''"
  by (simp add: cache_key_def user_request_def generateCacheKey_def)

lemma user_requests_distinct: "distinct (map cache_key (user_requests n))"
proof -
  have "inj (\<lambda>i. cache_key (user_request i))"
    by (rule injI) (simp add: user_request_key digits_inj)
  then have "inj_on (\<lambda>i. cache_key (user_request i)) (set [0..<n])"
    by (rule inj_on_subset) simp
  then show ?thesis
    by (simp add: user_requests_def distinct_map comp_def inj_on_def)
qed

lemma echo_ok: "\<exists>r. fst (echo_exec sql ps st) = Inr r"
  by (simp add: echo_exec_def)

lemma fresh_empty: "queryCache fresh_db = []"
  by (simp add: fresh_db_def new_DatabaseManager_def)

lemma full_db_keys: "map fst (queryCache full_db) = map cache_key (user_requests 1001)"
proof -
  from query_all_fifo [of echo_exec fresh_db "user_requests 1001",
                       OF echo_ok fresh_empty user_requests_distinct]
  show ?thesis by (simp add: full_db_def user_requests_def)
qed

text \<open>
  C2, as the code has it. The only cache with a ceiling is \<^verbatim>\<open>DatabaseManager.queryCache\<close>;
  the ceiling 1000 and the batch 100 are written into \<^verbatim>\<open>query\<close> and
  \<^verbatim>\<open>clearOldestCacheEntries\<close>. The size is compared with 1000 before the new entry is
  added, so the bound that holds is 1001. For every run of queries from a cache with at
  most 1001 entries, the cache has at most 1001 entries afterwards; eviction removes the
  first 100 entries in insertion order; and after \<open>n\<close> successful queries with distinct
  keys from an empty cache, the cached keys are the inserted keys without the earliest
  \<open>100 * ((n - 902) div 100)\<close> of them, in insertion order: the absent keys are exactly the
  earliest inserted.
\<close>

theorem query_cache_bound_and_fifo:
  "(distinct (map fst (queryCache dbm)) \<and> length (queryCache dbm) \<le> 1001 \<longrightarrow>
      length (queryCache (query_all ex dbm reqs)) \<le> 1001
      \<and> queryCache (clearOldestCacheEntries dbm) = drop 100 (queryCache dbm))
   \<and> ((\<forall>sql ps st. \<exists>r. fst (ex sql ps st) = Inr r) \<and> queryCache dbm = []
        \<and> distinct (map cache_key reqs) \<longrightarrow>
        map fst (queryCache (query_all ex dbm reqs))
          = drop (100 * ((length reqs - 902) div 100)) (map cache_key reqs))"
proof (intro conjI impI)
  assume a: "distinct (map fst (queryCache dbm)) \<and> length (queryCache dbm) \<le> 1001"
  then show "length (queryCache (query_all ex dbm reqs)) \<le> 1001"
    using query_all_inv [of dbm ex reqs] by simp
  from a show "queryCache (clearOldestCacheEntries dbm) = drop 100 (queryCache dbm)"
    by (simp add: clearOldest_drop)
next
  assume b: "(\<forall>sql ps st. \<exists>r. fst (ex sql ps st) = Inr r) \<and> queryCache dbm = []
        \<and> distinct (map cache_key reqs)"
  then have "\<And>sql ps st. \<exists>r. fst (ex sql ps st) = Inr r" by blast
  from query_all_fifo [of ex dbm reqs, OF this] b
  show "map fst (queryCache (query_all ex dbm reqs))
          = drop (100 * ((length reqs - 902) div 100)) (map cache_key reqs)"
    by simp
qed

text \<open>
  1001 queries for the users 0 to 1000 on a fresh manager: the cache holds 1001 entries,
  one more than the ceiling of 1000 the specification states.
\<close>

theorem query_cache_exceeds_ceiling:
  "length (queryCache (query_all echo_exec fresh_db (user_requests 1001))) = 1001
   \<and> \<not> length (queryCache (query_all echo_exec fresh_db (user_requests 1001))) \<le> 1000"
proof -
  from arg_cong [OF full_db_keys, of length]
  have "length (queryCache (query_all echo_exec fresh_db (user_requests 1001))) = 1001"
    by (simp add: full_db_def user_requests_def)
  then show ?thesis by simp
qed

text \<open>
  The query after those evicts: of 1002 keys the first 100 are absent, and the full cache
  loses its first 100 entries.
\<close>

theorem query_cache_bound_and_fifo_witness:
  "length (queryCache (query_all echo_exec fresh_db (user_requests 1002))) \<le> 1001
   \<and> map fst (queryCache (query_all echo_exec fresh_db (user_requests 1002)))
       = drop 100 (map cache_key (user_requests 1002))
   \<and> length (queryCache full_db) = 1001
   \<and> queryCache (clearOldestCacheEntries full_db) = drop 100 (queryCache full_db)"
proof -
  have fresh: "distinct (map fst (queryCache fresh_db)) \<and> length (queryCache fresh_db) \<le> 1001"
    by (simp add: fresh_empty)
  have ok: "\<forall>sql ps st. \<exists>r. fst (echo_exec sql ps st) = Inr r"
    by (simp add: echo_ok)
  have full: "distinct (map fst (queryCache full_db)) \<and> length (queryCache full_db) \<le> 1001"
    using query_all_inv [of fresh_db echo_exec "user_requests 1001"] fresh
    by (simp add: full_db_def)
  have len: "length (queryCache full_db) = 1001"
    using arg_cong [OF full_db_keys, of length] by (simp add: user_requests_def)
  note run = query_cache_bound_and_fifo [of fresh_db echo_exec "user_requests 1002"]
  from run fresh have a: "length (queryCache (query_all echo_exec fresh_db (user_requests 1002))) \<le> 1001"
    by blast
  from run ok fresh_empty user_requests_distinct [of 1002]
  have "map fst (queryCache (query_all echo_exec fresh_db (user_requests 1002)))
       = drop (100 * ((length (user_requests 1002) - 902) div 100)) (map cache_key (user_requests 1002))"
    by blast
  then have b: "map fst (queryCache (query_all echo_exec fresh_db (user_requests 1002)))
       = drop 100 (map cache_key (user_requests 1002))"
    by (simp add: user_requests_def)
  from query_cache_bound_and_fifo [of full_db echo_exec "[]"] full
  have c: "queryCache (clearOldestCacheEntries full_db) = drop 100 (queryCache full_db)"
    by blast
  from a b len c show ?thesis by simp
qed

subsection \<open>Reading after a write\<close>

text \<open>
  The entry that a query has just added is the newest of the query cache, so the eviction
  of the next query cannot remove it. Hence, from a service that has not read the user
  yet, whatever the store and whatever the update: when \<^verbatim>\<open>updateUser\<close> succeeds, the
  \<^verbatim>\<open>getUser\<close> after it returns what \<^verbatim>\<open>getUser\<close> returned before it.
\<close>

lemma Map_get_last:
  "k \<notin> fst ` set pre \<Longrightarrow> Map_get (pre @ (k, v) # post) k = v"
  by (induction pre) (auto simp: Map_get_def)

lemma Map_has_last: "Map_has (pre @ (k, v) # post) k"
  by (simp add: Map_has_def)

lemma query_newest:
  assumes "\<not> Map_has (queryCache d) (generateCacheKey sql params)"
    and "distinct (map fst (queryCache d))"
    and "query ex d sql params = (Inr result, d1)"
  shows "\<exists>pre. queryCache d1 = pre @ [(generateCacheKey sql params, result)]
           \<and> generateCacheKey sql params \<notin> fst ` set pre \<and> distinct (map fst pre)"
proof -
  from assms(1,3) obtain st where run: "ex sql params (backend d) = (Inr result, st)"
    by (auto simp: query_def Let_def split: prod.splits sum.splits)
  let ?pre = "if length (queryCache d) > 1000 then drop 100 (queryCache d) else queryCache d"
  from query_miss [where ex = ex, OF assms(1) run assms(2)] assms(3)
  have "queryCache d1 = ?pre @ [(generateCacheKey sql params, result)]" by simp
  moreover from assms(1) have "generateCacheKey sql params \<notin> fst ` set ?pre"
    by (auto simp: Map_has_def dest: in_set_dropD)
  moreover from assms(2) have "distinct (map fst ?pre)"
    by (simp add: drop_map [symmetric])
  ultimately show ?thesis by blast
qed

lemma query_keeps_newest:
  assumes "queryCache d1 = pre @ [(k, v)]" and "k \<notin> fst ` set pre" and "distinct (map fst pre)"
    and "query ex d1 sql2 params2 = (r, d2)"
  shows "Map_has (queryCache d2) k \<and> Map_get (queryCache d2) k = v"
proof -
  have dist: "distinct (map fst (queryCache d1))"
    using assms(1-3) by auto
  from query_cache_cases [of ex d1 sql2 params2]
  show ?thesis
  proof
    assume "queryCache (snd (query ex d1 sql2 params2)) = queryCache d1"
    with assms show ?thesis by (simp add: Map_has_last Map_get_last)
  next
    assume "\<not> Map_has (queryCache d1) (generateCacheKey sql2 params2)
       \<and> (\<exists>r st. ex sql2 params2 (backend d1) = (Inr r, st))"
    then obtain r' st where m: "\<not> Map_has (queryCache d1) (generateCacheKey sql2 params2)"
      and e: "ex sql2 params2 (backend d1) = (Inr r', st)" by blast
    have "queryCache d2
        = (if length (queryCache d1) > 1000 then drop 100 pre else pre)
          @ (k, v) # [(generateCacheKey sql2 params2, r')]"
      using query_miss [where ex = ex, OF m e dist] assms(1,4) by simp
    moreover from assms(2) have "k \<notin> fst ` set (if length (queryCache d1) > 1000 then drop 100 pre else pre)"
      by (auto dest: in_set_dropD)
    ultimately show ?thesis by (simp add: Map_has_last Map_get_last)
  qed
qed

lemma getUser_cold:
  assumes "\<not> Map_has (userCache us) i"
  shows "getUser ex us i =
     (case query ex (us_db us) ''SELECT * FROM users WHERE id = ?'' [JNum i] of
        (Inl e, d) \<Rightarrow> (Inl e, us\<lparr>us_db := d\<rparr>)
      | (Inr result, d) \<Rightarrow>
          if truthy result \<and> truthy (js_index0 result)
          then (Inr (js_index0 result),
                us\<lparr>us_db := d, userCache := Map_set (userCache us) i (js_index0 result)\<rparr>)
          else (Inr JNull, us\<lparr>us_db := d\<rparr>))"
  using assms by (simp add: getUser_def Let_def split: prod.splits sum.splits)

lemma updateUser_then_getUser_same:
  assumes cold: "\<not> Map_has (userCache us) i"
    and miss: "\<not> Map_has (queryCache (us_db us))
                  (generateCacheKey ''SELECT * FROM users WHERE id = ?'' [JNum i])"
    and dist: "distinct (map fst (queryCache (us_db us)))"
    and upd: "updateUser ex us i ud = (Inr r, us2)"
  shows "fst (getUser ex us2 i) = fst (getUser ex us i)"
proof -
  let ?sel = "''SELECT * FROM users WHERE id = ?''"
  obtain x d1 where q: "query ex (us_db us) ?sel [JNum i] = (x, d1)"
    by (cases "query ex (us_db us) ?sel [JNum i]") auto
  from upd q cold obtain result where x: "x = Inr result"
    by (cases x) (auto simp: updateUser_def getUser_cold)
  from upd q cold x have tr: "truthy result \<and> truthy (js_index0 result)"
    by (auto simp: updateUser_def getUser_cold js_not_def split: if_splits)
  let ?existing = "js_index0 result"
  let ?us1 = "us\<lparr>us_db := d1, userCache := Map_set (userCache us) i ?existing\<rparr>"
  from q x tr cold have g: "getUser ex us i = (Inr ?existing, ?us1)"
    by (simp add: getUser_cold)
  from query_newest [OF miss dist q [unfolded x]] obtain pre where
    pre: "queryCache d1 = pre @ [(generateCacheKey ?sel [JNum i], result)]"
      "generateCacheKey ?sel [JNum i] \<notin> fst ` set pre" "distinct (map fst pre)" by blast
  let ?upd = "''UPDATE users SET name = ?, email = ?, role = ? WHERE id = ?''"
  let ?ps = "[js_or (of_str (ud_name ud)) (js_field ?existing ''name''),
              js_or (of_str (ud_email ud)) (js_field ?existing ''email''),
              js_or (of_str (ud_role ud)) (js_field ?existing ''role''), JNum i]"
  obtain y d2 where u: "query ex d1 ?upd ?ps = (y, d2)"
    by (cases "query ex d1 ?upd ?ps") auto
  from upd g u tr have us2: "us2 = us_clearCache (?us1\<lparr>us_db := d2\<rparr>)"
    by (cases y) (auto simp: updateUser_def js_not_def)
  from query_keeps_newest [OF pre u]
  have hit: "Map_has (queryCache d2) (generateCacheKey ?sel [JNum i])"
    and val: "Map_get (queryCache d2) (generateCacheKey ?sel [JNum i]) = result" by simp_all
  have "getUser ex us2 i = (Inr ?existing, us2\<lparr>userCache := [(i, ?existing)]\<rparr>)"
    using tr by (simp add: us2 us_clearCache_def Map_clear_def getUser_def Map_has_def
                   query_hit [OF hit] val Let_def)
  with g show ?thesis by simp
qed

text \<open>
  C1. The write paths clear the service's own cache (\<^verbatim>\<open>clearCache\<close>) and leave
  \<^verbatim>\<open>DatabaseManager.queryCache\<close>, which \<^verbatim>\<open>getUser\<close> reads through, as it is. On a store
  with the user 1 named Ann: \<^verbatim>\<open>updateUser(1, {name: 'Bob'})\<close> succeeds, the row in the
  store is Bob's and the user cache is empty, and the \<^verbatim>\<open>getUser(1)\<close> that follows returns
  the row of Ann, cached by the query cache before the update.
\<close>

theorem updateUser_then_getUser_is_stale:
  "fst (updateUser table_exec (new_UserService shop_db) 1 rename_to_bob)
     = Inr (JObj [(''affectedRows'', JNum 1)])
   \<and> users_tbl (backend (us_db (snd (updateUser table_exec (new_UserService shop_db) 1 rename_to_bob))))
     = [(1, bob)]
   \<and> userCache (snd (updateUser table_exec (new_UserService shop_db) 1 rename_to_bob)) = []
   \<and> fst (getUser table_exec (snd (updateUser table_exec (new_UserService shop_db) 1 rename_to_bob)) 1)
     = Inr ann"
  by code_simp

subsection \<open>Deleting what is not there\<close>

text \<open>
  For every store: \<^verbatim>\<open>deleteUser\<close> of a user that \<^verbatim>\<open>getUser\<close> does not find throws and
  issues no \<^verbatim>\<open>DELETE\<close>; \<^verbatim>\<open>deleteProduct\<close> returns whatever the store answers to the
  \<^verbatim>\<open>DELETE\<close>.
\<close>

lemma deleteUser_absent:
  assumes "fst (getUser ex us i) = Inr v" and "\<not> truthy v"
  shows "deleteUser ex us i
       = (Inl (Error (''User with id '' @ to_string (JNum i) @ '' not found'')),
          snd (getUser ex us i))"
  using assms by (cases "getUser ex us i") (simp add: deleteUser_def js_not_def)

lemma deleteProduct_returns_store_result:
  assumes "\<not> Map_has (queryCache (ps_db ps))
               (generateCacheKey ''DELETE FROM products WHERE id = ?'' [JNum i])"
    and "ex ''DELETE FROM products WHERE id = ?'' [JNum i] (backend (ps_db ps)) = (Inr r, st)"
  shows "fst (deleteProduct ex ps i) = Inr r"
  using assms by (simp add: deleteProduct_def query_def Let_def)


text \<open>
  C3. \<^verbatim>\<open>deleteUser\<close> fetches the user first and throws when there is none;
  \<^verbatim>\<open>deleteProduct\<close> issues the \<^verbatim>\<open>DELETE\<close> at once. On a store with no product 42,
  \<^verbatim>\<open>deleteProduct(42)\<close> returns the store's result (no row affected) and throws nothing,
  where \<^verbatim>\<open>deleteUser(42)\<close> throws that the user is not found. And a second
  \<^verbatim>\<open>deleteUser(1)\<close>, after the first has removed the user, finds the row in the query
  cache and returns the cached result of the first \<^verbatim>\<open>DELETE\<close>.
\<close>

theorem deleteProduct_absent_succeeds:
  "fst (deleteProduct table_exec (new_ProductService shop_db) 42)
     = Inr (JObj [(''affectedRows'', JNum 0)])
   \<and> fst (deleteUser table_exec (new_UserService shop_db) 42)
     = Inl (Error ''User with id 42 not found'')
   \<and> users_tbl (backend (us_db (snd (deleteUser table_exec (new_UserService shop_db) 1)))) = []
   \<and> fst (deleteUser table_exec (snd (deleteUser table_exec (new_UserService shop_db) 1)) 1)
     = Inr (JObj [(''affectedRows'', JNum 1)])"
  by code_simp

subsection \<open>Validation on create\<close>

text \<open>
  \<open>validateEmail\<close> accepts exactly the strings of the pattern: a local part, \<^verbatim>\<open>@\<close>, a part
  before a dot and a part after it, each not empty and free of white space and \<^verbatim>\<open>@\<close>.
\<close>

lemma dot_is_email_char: "email_char CHR ''.''"
  by (simp add: email_char_def is_space_def)

lemma validateEmail_complete:
  assumes s: "s = l @ ''@'' @ a @ ''.'' @ b"
    and ne: "l \<noteq> []" "a \<noteq> []" "b \<noteq> []"
    and ok: "list_all email_char l" "list_all email_char a" "list_all email_char b"
  shows "validateEmail s"
proof -
  from ok(1) have noat: "\<And>c. c \<in> set l \<Longrightarrow> c \<noteq> CHR ''@''"
    by (auto simp: list_all_iff email_char_def)
  have tw: "takeWhile (\<lambda>c. c \<noteq> CHR ''@'') s = l"
    unfolding s using noat by (simp add: takeWhile_append2)
  have dw: "dropWhile (\<lambda>c. c \<noteq> CHR ''@'') s = CHR ''@'' # a @ CHR ''.'' # b"
    unfolding s using noat by (simp add: dropWhile_append2)
  from ne obtain x a' where a: "a = x # a'" by (cases a) auto
  from ne(3) have "butlast (a' @ CHR ''.'' # b) = a' @ CHR ''.'' # butlast b"
    by (simp add: butlast_append)
  then have dot: "CHR ''.'' \<in> set (butlast (tl (a @ CHR ''.'' # b)))" by (simp add: a)
  have all: "list_all email_char (a @ CHR ''.'' # b)"
    using ok by (simp add: dot_is_email_char)
  show ?thesis
    unfolding validateEmail_def Let_def tw dw using ne(1) ok(1) all dot by simp
qed

lemma validateEmail_sound:
  assumes v: "validateEmail s"
  shows "\<exists>l a b. s = l @ ''@'' @ a @ ''.'' @ b \<and> l \<noteq> [] \<and> a \<noteq> [] \<and> b \<noteq> []
        \<and> list_all email_char l \<and> list_all email_char a \<and> list_all email_char b"
proof -
  define l where "l = takeWhile (\<lambda>c. c \<noteq> CHR ''@'') s"
  define r where "r = dropWhile (\<lambda>c. c \<noteq> CHR ''@'') s"
  have s: "s = l @ r" by (simp add: l_def r_def)
  from v have v': "(case r of [] \<Rightarrow> False
         | at # d \<Rightarrow> l \<noteq> [] \<and> list_all email_char l \<and> list_all email_char d
             \<and> CHR ''.'' \<in> set (butlast (tl d)))"
    unfolding validateEmail_def Let_def l_def r_def .
  then obtain at d where r: "r = at # d" by (cases r) simp_all
  have "hd r = CHR ''@''"
    using hd_dropWhile [of "\<lambda>c. c \<noteq> CHR ''@''" s] r unfolding r_def by auto
  with r have at: "at = CHR ''@''" by simp
  from v' r have facts: "l \<noteq> []" "list_all email_char l" "list_all email_char d"
    "CHR ''.'' \<in> set (butlast (tl d))"
    by simp_all
  from facts(4) obtain x t where d: "d = x # t" by (cases d) auto
  with facts(4) have dot: "CHR ''.'' \<in> set (butlast t)" by simp
  then have "t \<noteq> []" by auto
  then obtain t' z where t: "t = t' @ [z]" by (metis rev_exhaust)
  with dot obtain p q where pq: "t' = p @ CHR ''.'' # q"
    by (auto dest: split_list)
  have dd: "d = (x # p) @ CHR ''.'' # (q @ [z])"
    by (simp add: d t pq)
  from facts(3) have "list_all email_char (x # p)" and "list_all email_char (q @ [z])"
    unfolding dd by simp_all
  moreover have "s = l @ ''@'' @ (x # p) @ ''.'' @ (q @ [z])"
    by (simp add: s r at dd)
  ultimately show ?thesis
    using facts(1,2) by (intro exI [of _ l] exI [of _ "x # p"] exI [of _ "q @ [z]"]) simp
qed

text \<open>
  The validation of \<^verbatim>\<open>createUser\<close> and \<^verbatim>\<open>createProduct\<close>, for every store and every state
  of the service: a rejected input leaves the service and the store as they were; an
  accepted one goes to the store as the \<^verbatim>\<open>INSERT\<close> with its fields as parameters.
\<close>

lemma createUser_missing:
  assumes "ud_name ud \<in> {None, Some []} \<or> ud_email ud \<in> {None, Some []}
           \<or> ud_role ud \<in> {None, Some []}"
  shows "createUser ex us ud = (Inl (Error ''Missing required user fields''), us)"
  using assms by (auto simp: createUser_def js_not_def of_str_def)

lemma createUser_invalid_email:
  assumes "ud_name ud = Some n" and "n \<noteq> []" and "ud_role ud = Some r" and "r \<noteq> []"
    and "ud_email ud = Some e" and "e \<noteq> []" and "\<not> validateEmail e"
  shows "createUser ex us ud = (Inl (Error ''Invalid email format''), us)"
  using assms by (simp add: createUser_def js_not_def of_str_def)

lemma createUser_valid:
  assumes "ud_name ud = Some n" and "n \<noteq> []" and "ud_role ud = Some r" and "r \<noteq> []"
    and "ud_email ud = Some e" and "validateEmail e"
  shows "us_db (snd (createUser ex us ud))
       = snd (query ex (us_db us) ''INSERT INTO users (name, email, role) VALUES (?, ?, ?)''
                [JStr n, JStr e, JStr r])"
proof -
  from assms(6) have "e \<noteq> []" by (auto simp: validateEmail_def)
  with assms show ?thesis
    by (simp add: createUser_def js_not_def of_str_def us_clearCache_def
             split: prod.splits sum.splits)
qed

lemma createProduct_valid:
  assumes "pd_name pd = Some n" and "n \<noteq> []" and "pd_category pd = Some c" and "c \<noteq> []"
    and "pd_price pd = Some p" and "p > 0"
  shows "ps_db (snd (createProduct ex ps pd))
       = snd (query ex (ps_db ps)
                ''INSERT INTO products (name, description, price, category) VALUES (?, ?, ?, ?)''
                [JStr n, js_or (of_str (pd_description pd)) (JStr []), JNum p, JStr c])"
  using assms
  by (simp add: createProduct_def js_not_def of_str_def of_num_def ps_clearCache_def Let_def
           split: prod.splits sum.splits)

lemma createProduct_missing:
  assumes "pd_name pd \<in> {None, Some []} \<or> pd_price pd \<in> {None, Some 0}
           \<or> pd_category pd \<in> {None, Some []}"
  shows "createProduct ex ps pd = (Inl (Error ''Missing required product fields''), ps)"
  using assms by (auto simp: createProduct_def js_not_def of_num_def of_str_def)

lemma createProduct_negative:
  assumes "pd_name pd = Some n" and "n \<noteq> []" and "pd_category pd = Some c" and "c \<noteq> []"
    and "pd_price pd = Some p" and "p < 0"
  shows "createProduct ex ps pd = (Inl (Error ''Price cannot be negative''), ps)"
  using assms by (simp add: createProduct_def js_not_def of_num_def of_str_def)


text \<open>
  C4. \<^verbatim>\<open>createProduct\<close> tests the required fields with \<^verbatim>\<open>!productData.price\<close>, and 0 is
  falsy: a product with a name, a category and the price 0 is rejected as having a
  required field missing, before any statement is issued (the service and the store are
  unchanged); with the price 10 the same product passes the validation and the
  \<^verbatim>\<open>INSERT\<close> reaches the store with the four parameters.
\<close>

theorem createProduct_rejects_price_zero:
  "createProduct table_exec (new_ProductService shop_db) free_widget
     = (Inl (Error ''Missing required product fields''), new_ProductService shop_db)
   \<and> fst (createProduct echo_exec (new_ProductService fresh_db) (free_widget\<lparr>pd_price := Some 10\<rparr>))
     = Inr (JArr [JStr ''Widget'', JStr [], JNum 10, JStr ''tools''])"
  by code_simp

subsection \<open>Payments\<close>

text \<open>
  \<^verbatim>\<open>processPayment\<close> branch by branch: an absent order, a failed charge, and a
  successful charge on a service whose \<^verbatim>\<open>db\<close> field had been assigned.
\<close>

lemma processPayment_absent:
  assumes "fst (getOrder ex (orderService ps) orderId) = Inr order" and "\<not> truthy order"
  shows "fst (processPayment_via charge ex ps orderId m) = Inl (Error ''Order not found'')"
  using assms
  by (cases "getOrder ex (orderService ps) orderId")
     (simp add: processPayment_via_def js_not_def Let_def)

lemma processPayment_failed_charge:
  assumes "fst (getOrder ex (orderService ps) orderId) = Inr order" and "truthy order"
    and "\<not> nullish (charge m (js_field order ''total''))"
    and "\<not> truthy (js_field (charge m (js_field order ''total'')) ''success'')"
  shows "processPayment_via charge ex ps orderId m
       = (Inr (JObj [(''success'', JBool False),
                     (''error'', js_field (charge m (js_field order ''total'')) ''error'')]),
          ps\<lparr>orderService := snd (getOrder ex (orderService ps) orderId)\<rparr>)"
  using assms
  by (cases "getOrder ex (orderService ps) orderId")
     (simp add: processPayment_via_def js_not_def js_get_def Let_def)

lemma processPayment_with_db:
  assumes "fst (getOrder ex (orderService ps) orderId) = Inr order" and "truthy order"
    and "pay_db ps = Some d"
    and "fst (query ex d ''UPDATE orders SET status = ? WHERE id = ?''
                [JStr ''paid'', JNum orderId]) = Inr updated"
  shows "fst (processPayment now ex ps orderId m)
       = Inr (JObj [(''success'', JBool True),
                    (''transactionId'', JStr (''TXN'' @ to_string (JNum now)))])"
  using assms
  by (cases "getOrder ex (orderService ps) orderId";
      cases "query ex d ''UPDATE orders SET status = ? WHERE id = ?'' [JStr ''paid'', JNum orderId]")
     (simp add: processPayment_def processPayment_via_def js_not_def js_get_def Let_def
        chargePayment_def updateOrderStatus_def)


lemma getOrder_7:
  "fst (getOrder table_exec (new_OrderService shop_db) 7) = Inr (order_row 7 1 50 (JStr ''pending''))
   \<and> orders_tbl (backend (os_db (snd (getOrder table_exec (new_OrderService shop_db) 7))))
       = orders_tbl shop"
  by code_simp

text \<open>
  On a service the constructor built, a payment for an order that exists ends in the
  TypeError of \<^verbatim>\<open>updateOrderStatus\<close>, after the charge; no call returns a result.
\<close>

lemma processPayment_unpaid:
  assumes "fst (getOrder ex os orderId) = Inr order" and "truthy order"
  shows "processPayment now ex (new_PaymentService os) orderId m
       = (Inl (TypeError ''Cannot read properties of undefined (reading 'query')''),
          (new_PaymentService os)\<lparr>orderService := snd (getOrder ex os orderId)\<rparr>)"
  using assms
  by (cases "getOrder ex os orderId")
     (simp add: processPayment_def processPayment_via_def new_PaymentService_def
        updateOrderStatus_def chargePayment_def js_get_def js_not_def Let_def)

lemma processPayment_always_throws:
  "\<exists>e. fst (processPayment now ex (new_PaymentService os) orderId m) = Inl e"
  by (auto simp: processPayment_def processPayment_via_def new_PaymentService_def
        updateOrderStatus_def chargePayment_def js_get_def Let_def
        split: prod.splits sum.splits)

text \<open>
  C7. \<^verbatim>\<open>updateOrderStatus\<close> calls \<^verbatim>\<open>this.db.query\<close>, and the constructor of
  \<^verbatim>\<open>PaymentService\<close> never assigns \<^verbatim>\<open>this.db\<close>. For the pending order 7 of the store, with
  the charge succeeding, \<^verbatim>\<open>processPayment(7, 'card')\<close> throws a TypeError; it returns no
  result, and the order in the store is as it was, still pending.
\<close>

theorem processPayment_throws_on_success:
  "fst (processPayment 1700000000000 table_exec (new_PaymentService (new_OrderService shop_db)) 7
          (JStr ''card''))
     = Inl (TypeError ''Cannot read properties of undefined (reading 'query')'')
   \<and> orders_tbl (backend (os_db (orderService (snd
        (processPayment 1700000000000 table_exec (new_PaymentService (new_OrderService shop_db)) 7
           (JStr ''card''))))))
     = orders_tbl shop"
proof -
  from getOrder_7 have "truthy (order_row 7 1 50 (JStr ''pending''))"
    by (simp add: order_row_def)
  from processPayment_unpaid [OF conjunct1 [OF getOrder_7] this, of 1700000000000 "JStr ''card''"]
       getOrder_7
  show ?thesis by simp
qed

subsection \<open>Retrying the connection\<close>

text \<open>
  The JavaScript \<^verbatim>\<open>connect\<close>: when every attempt fails, the exception of the last attempt
  is thrown and the connection is left as it was; a run makes at most \<open>retryAttempts\<close>
  attempts and pauses \<open>1000 * i\<close> milliseconds after the failed attempt \<open>i\<close>.
\<close>

lemma connect_loop_all_fail:
  assumes "\<And>k. k < nat retry \<Longrightarrow> \<exists>e. est k = Inl e" and "0 \<le> attempts" and "attempts < retry"
    and "est (nat (retry - 1)) = Inl final"
  shows "fst (connect_loop est retry attempts conn trace) = Inl final
       \<and> fst (snd (connect_loop est retry attempts conn trace)) = conn"
  using assms
proof (induction est retry attempts conn trace rule: connect_loop.induct)
  case (1 est retry attempts conn trace)
  from "1.prems" have "nat attempts < nat retry" by simp
  from "1.prems"(1) [OF this] obtain e where e: "est (nat attempts) = Inl e" ..
  show ?case
  proof (cases "attempts + 1 \<ge> retry")
    case True
    with "1.prems" have "attempts = retry - 1" by simp
    with e True "1.prems" show ?thesis
      by (subst (1 2) connect_loop.simps) simp
  next
    case False
    with "1.IH" [OF _ e False] "1.prems"
    have "fst (connect_loop est retry (attempts + 1) conn
                 (trace @ [Establish, Sleep (1000 * (attempts + 1))])) = Inl final
       \<and> fst (snd (connect_loop est retry (attempts + 1) conn
                 (trace @ [Establish, Sleep (1000 * (attempts + 1))]))) = conn"
      by simp
    with e False "1.prems" show ?thesis
      by (subst (1 2) connect_loop.simps) simp
  qed
qed

lemma connect_loop_attempts:
  "0 \<le> attempts \<Longrightarrow>
   length (filter (\<lambda>ev. ev = Establish) (snd (snd (connect_loop est retry attempts conn trace))))
     \<le> length (filter (\<lambda>ev. ev = Establish) trace) + nat (retry - attempts)"
proof (induction est retry attempts conn trace rule: connect_loop.induct)
  case (1 est retry attempts conn trace)
  show ?case
  proof (cases "attempts < retry")
    case False
    then show ?thesis by (subst connect_loop.simps) simp
  next
    case True
    note lt = this
    show ?thesis
    proof (cases "est (nat attempts)")
      case (Inr c)
      with lt show ?thesis by (subst connect_loop.simps) simp
    next
      case (Inl e)
      show ?thesis
      proof (cases "attempts + 1 \<ge> retry")
        case True
        with lt Inl show ?thesis by (subst connect_loop.simps) simp
      next
        case False
        from "1.IH" [OF lt Inl False] "1.prems"
        have "length (filter (\<lambda>ev. ev = Establish)
                (snd (snd (connect_loop est retry (attempts + 1) conn
                   (trace @ [Establish, Sleep (1000 * (attempts + 1))])))))
            \<le> length (filter (\<lambda>ev. ev = Establish) trace) + 1 + nat (retry - (attempts + 1))"
          by simp
        with lt Inl False show ?thesis by (subst connect_loop.simps) simp
      qed
    qed
  qed
qed

lemma connect_loop_trace:
  assumes "0 \<le> attempts" and "attempts < retry"
  shows "\<exists>k. nat attempts \<le> k \<and> k < nat retry
           \<and> snd (snd (connect_loop est retry attempts conn (pauses (nat attempts))))
               = pauses k @ [Establish]"
  using assms
proof (induction "nat (retry - attempts)" arbitrary: attempts rule: less_induct)
  case less
  show ?case
  proof (cases "est (nat attempts)")
    case (Inr c)
    with less.prems show ?thesis
      by (subst connect_loop.simps) (auto intro!: exI [of _ "nat attempts"])
  next
    case (Inl e)
    show ?thesis
    proof (cases "attempts + 1 \<ge> retry")
      case True
      with Inl less.prems show ?thesis
        by (subst connect_loop.simps) (auto intro!: exI [of _ "nat attempts"])
    next
      case False
      with less.prems have m: "nat (retry - (attempts + 1)) < nat (retry - attempts)"
        and p: "0 \<le> attempts + 1" "attempts + 1 < retry" by simp_all
      from less.hyps [OF m p] obtain k where k: "nat (attempts + 1) \<le> k" "k < nat retry"
        "snd (snd (connect_loop est retry (attempts + 1) conn (pauses (nat (attempts + 1)))))
               = pauses k @ [Establish]" by blast
      from less.prems have s: "nat (attempts + 1) = Suc (nat attempts)" by simp
      have "pauses (nat attempts) @ [Establish, Sleep (1000 * (attempts + 1))]
          = pauses (nat (attempts + 1))"
        using less.prems by (simp add: s)
      with k Inl False less.prems
      have "snd (snd (connect_loop est retry attempts conn (pauses (nat attempts))))
               = pauses k @ [Establish]"
        by (subst connect_loop.simps) simp
      with k s show ?thesis by (intro exI [of _ k]) simp
    qed
  qed
qed

text \<open>The Java \<^verbatim>\<open>connect\<close> returns normally, whatever the driver does.\<close>

lemma j_connect_loop_returns:
  "fst (j_connect_loop g retry attempts lastEx conn trace) = Inr ()"
proof (induction "nat (retry - attempts)" arbitrary: attempts lastEx conn trace rule: less_induct)
  case less
  show ?case
  proof (cases "attempts < retry")
    case False
    then show ?thesis by (subst j_connect_loop.simps) simp
  next
    case True
    then have "nat (retry - (attempts + 1)) < nat (retry - attempts)" by simp
    note IH = less.hyps [OF this]
    from True show ?thesis
      by (subst j_connect_loop.simps) (simp add: IH split: sum.splits option.splits)
  qed
qed

lemma j_connect_returns: "fst (j_connect g m) = Inr ()"
proof -
  obtain r c t where l: "j_connect_loop g (j_retryAttempts m) 0 None (j_connection m) [] = (r, c, t)"
    by (cases "j_connect_loop g (j_retryAttempts m) 0 None (j_connection m) []") auto
  from j_connect_loop_returns [of g "j_retryAttempts m" 0 None "j_connection m" "[]"] l
  have "r = Inr ()" by simp
  with l show ?thesis by (simp add: j_connect_def)
qed

text \<open>
  C6. With a driver that refuses every connection and the default of three attempts, both
  variants try three times and pause 1000 and 2000 milliseconds in between. The
  JavaScript \<^verbatim>\<open>connect\<close> then throws the failure of the third attempt. The Java
  \<^verbatim>\<open>connect\<close> catches each \<^verbatim>\<open>SQLException\<close>, prints a line after the loop and returns
  normally, with no connection.
\<close>

theorem java_connect_returns_after_exhausting_retries:
  "j_connect j_refusing java_db
     = (Inr (), java_db, [Establish, Sleep 1000, Establish, Sleep 2000, Establish])
   \<and> j_connection java_db = None
   \<and> connect refusing fresh_db
     = (Inl (Error ''attempt 3 refused''), fresh_db,
        [Establish, Sleep 1000, Establish, Sleep 2000, Establish])"
  by code_simp

subsection \<open>Statements without a connection\<close>













subsection \<open>The key of the query cache\<close>

lemma digits_chars:
  "c \<in> set (digits n) \<Longrightarrow> 48 \<le> (of_char c :: nat) \<and> (of_char c :: nat) \<le> 57"
proof (induction n rule: digits.induct)
  case (1 n)
  show ?case
  proof (cases "n < 10")
    case True
    with "1.prems" show ?thesis by (simp add: digits_small)
  next
    case False
    have "n mod 10 < 10" by simp
    then have "(48 + n mod 10) mod 256 = 48 + n mod 10" by simp
    with False "1.prems" "1.IH" show ?thesis
      by (auto simp: digits_big)
  qed
qed

lemma digits_no_comma: "CHR '','' \<notin> set (digits n)"
  using digits_chars [of "CHR '',''" n] by auto

lemma digits_no_minus: "CHR ''-'' \<notin> set (digits n)"
  using digits_chars [of "CHR ''-''" n] by auto

lemma number_text_inj:
  assumes "stringify (JNum a) = stringify (JNum b)"
  shows "a = b"
proof (cases "a < 0")
  case True
  note a = this
  show ?thesis
  proof (cases "b < 0")
    case True
    with a assms have "nat (- a) = nat (- b)" by (auto dest: digits_inj)
    with a True show ?thesis by simp
  next
    case False
    with a assms have "CHR ''-'' \<in> set (digits (nat b))"
      by (metis list.set_intros(1) stringify.simps(4))
    with digits_no_minus show ?thesis by blast
  qed
next
  case False
  note a = this
  show ?thesis
  proof (cases "b < 0")
    case True
    with a assms have "CHR ''-'' \<in> set (digits (nat a))"
      by (metis list.set_intros(1) stringify.simps(4))
    with digits_no_minus show ?thesis by blast
  next
    case False
    with a assms have "nat a = nat b" by (auto dest: digits_inj)
    with a False show ?thesis by simp
  qed
qed

lemma number_text_no_comma: "CHR '','' \<notin> set (stringify (JNum a))"
  using digits_no_comma by simp

lemma number_text_nonempty: "stringify (JNum a) \<noteq> []"
  using digits_nonempty by simp

lemma comma_split:
  assumes "CHR '','' \<notin> set a" and "CHR '','' \<notin> set b"
    and "a @ CHR '','' # r = b @ CHR '','' # r'"
  shows "a = b \<and> r = r'"
proof -
  from assms(1) have na: "\<And>c. c \<in> set a \<Longrightarrow> c \<noteq> CHR '',''" by auto
  from assms(2) have nb: "\<And>c. c \<in> set b \<Longrightarrow> c \<noteq> CHR '',''" by auto
  have "takeWhile (\<lambda>c. c \<noteq> CHR '','') (a @ CHR '','' # r) = a"
    using na by (simp add: takeWhile_append2)
  moreover have "takeWhile (\<lambda>c. c \<noteq> CHR '','') (b @ CHR '','' # r') = b"
    using nb by (simp add: takeWhile_append2)
  ultimately have "a = b" using assms(3) by simp
  with assms(3) show ?thesis by simp
qed

lemma join_Cons2: "join sep (x # y # ys) = x @ sep @ join sep (y # ys)"
  by simp

lemma join_comma_inj:
  assumes "\<And>x. x \<in> set xs \<union> set ys \<Longrightarrow> CHR '','' \<notin> set x \<and> x \<noteq> []"
    and "join '','' xs = join '','' ys"
  shows "xs = ys"
  using assms
proof (induction xs arbitrary: ys)
  case Nil
  show ?case
  proof (cases ys)
    case Nil
    then show ?thesis by simp
  next
    case (Cons y ys')
    with Nil.prems(1) [of y] have "y \<noteq> []" by simp
    with Nil.prems(2) Cons show ?thesis by (cases ys') simp_all
  qed
next
  case (Cons x xs)
  from Cons.prems(1) [of x] have x: "CHR '','' \<notin> set x" "x \<noteq> []" by simp_all
  show ?case
  proof (cases ys)
    case Nil
    with Cons.prems(2) x show ?thesis by (cases xs) simp_all
  next
    case (Cons y ys')
    note ys = this
    from Cons.prems(1) [of y] ys have y: "CHR '','' \<notin> set y" "y \<noteq> []" by simp_all
    show ?thesis
    proof (cases xs)
      case Nil
      note xs = this
      show ?thesis
      proof (cases ys')
        case Nil
        with xs ys Cons.prems(2) show ?thesis by simp
      next
        case (Cons y2 ys2)
        with xs ys Cons.prems(2) have "x = y @ CHR '','' # join '','' (y2 # ys2)" by simp
        then have "CHR '','' \<in> set x" by simp
        with x show ?thesis by simp
      qed
    next
      case (Cons x2 xs2)
      note xs = this
      show ?thesis
      proof (cases ys')
        case Nil
        with xs ys Cons.prems(2) have "y = x @ CHR '','' # join '','' (x2 # xs2)" by simp
        then have "CHR '','' \<in> set y" by simp
        with y show ?thesis by simp
      next
        case (Cons y2 ys2)
        with xs ys Cons.prems(2)
        have "x @ CHR '','' # join '','' xs = y @ CHR '','' # join '','' ys'" by simp
        from comma_split [OF x(1) y(1) this] have e: "x = y" "join '','' xs = join '','' ys'"
          by simp_all
        have "xs = ys'"
        proof (rule Cons.IH [OF _ e(2)])
          fix z assume "z \<in> set xs \<union> set ys'"
          with Cons.prems(1) [of z] ys show "CHR '','' \<notin> set z \<and> z \<noteq> []" by auto
        qed
        with e ys show ?thesis by simp
      qed
    qed
  qed
qed

lemma stringify_numbers: "stringify_elems (map JNum ns) = map (\<lambda>n. stringify (JNum n)) ns"
  by (induction ns) simp_all

lemma number_list_text_inj:
  assumes "stringify (JArr (map JNum ns)) = stringify (JArr (map JNum ms))"
  shows "ns = ms"
proof -
  define f where "f = (\<lambda>n. stringify (JNum n))"
  have plainf: "CHR '','' \<notin> set (f n) \<and> f n \<noteq> []" for n
    unfolding f_def using number_text_no_comma number_text_nonempty by blast
  have "inj f" unfolding f_def by (rule injI) (rule number_text_inj)
  from assms have "join '','' (map f ns) = join '','' (map f ms)"
    by (simp add: stringify_numbers f_def)
  moreover have "CHR '','' \<notin> set x \<and> x \<noteq> []"
    if "x \<in> set (map f ns) \<union> set (map f ms)" for x
  proof -
    from that obtain n where "x = f n" by auto
    with plainf show ?thesis by simp
  qed
  ultimately have "map f ns = map f ms" by (rule join_comma_inj [rotated])
  with \<open>inj f\<close> show ?thesis by (simp add: inj_map_eq_map)
qed

lemma key_same_statement:
  "generateCacheKey sql params = generateCacheKey sql params2
     \<longleftrightarrow> stringify (JArr params) = stringify (JArr params2)"
  by (simp add: generateCacheKey_def)

lemma query_miss_runs:
  assumes "\<not> Map_has (queryCache dbm) (generateCacheKey sql params)"
  shows "fst (query ex dbm sql params) = fst (ex sql params (backend dbm))
       \<and> backend (snd (query ex dbm sql params)) = snd (ex sql params (backend dbm))"
  using assms
  by (cases "ex sql params (backend dbm)")
     (auto simp: query_def Let_def clearOldestCacheEntries_def split: sum.splits)

text \<open>
  C10. \<^verbatim>\<open>DatabaseManager.query\<close> caches the result of every statement, read or write
  alike, under the key \<open>generateCacheKey sql params\<close>: the exact statement text, a colon and
  the JSON text of the parameter list. Two requests with the same parameters share a key
  only when their statement texts are equal, two requests with the same statement text
  only when the JSON texts of their parameters are equal, and lists of numbers that
  differ never share one. A call whose key is cached returns the cached result and leaves
  the manager and the store behind it as they were, whatever the executor would have
  done; a call whose key is not cached runs the statement on the store. So after one
  successful call, a call with the same key (the same \<^verbatim>\<open>INSERT\<close>, \<^verbatim>\<open>UPDATE\<close> or
  \<^verbatim>\<open>DELETE\<close> again) returns the first result and has no effect on the store.
\<close>

theorem query_caches_every_statement:
  "(plain_elems params \<longrightarrow>
      generateCacheKey sql params = sql @ '':'' @ stringify (JArr params))
   \<and> (generateCacheKey sql params = generateCacheKey sql2 params \<longleftrightarrow> sql = sql2)
   \<and> (generateCacheKey sql params = generateCacheKey sql params2
        \<longleftrightarrow> stringify (JArr params) = stringify (JArr params2))
   \<and> (plain_elems (map JNum ns) \<and> plain_elems (map JNum ms)
        \<and> generateCacheKey sql (map JNum ns) = generateCacheKey sql (map JNum ms) \<longrightarrow> ns = ms)
   \<and> (Map_has (queryCache dbm) (generateCacheKey sql params) \<longrightarrow>
        query ex dbm sql params
          = (Inr (Map_get (queryCache dbm) (generateCacheKey sql params)), dbm))
   \<and> (\<not> Map_has (queryCache dbm) (generateCacheKey sql params) \<longrightarrow>
        fst (query ex dbm sql params) = fst (ex sql params (backend dbm))
        \<and> backend (snd (query ex dbm sql params)) = snd (ex sql params (backend dbm)))
   \<and> (query ex dbm sql params = (Inr r, dbm1) \<longrightarrow>
        generateCacheKey sql2 params2 = generateCacheKey sql params \<longrightarrow>
        query ex2 dbm1 sql2 params2 = (Inr r, dbm1))"
proof (intro conjI impI)
  show "generateCacheKey sql params = sql @ '':'' @ stringify (JArr params)"
    by (simp add: generateCacheKey_def)
next
  show "generateCacheKey sql params = generateCacheKey sql2 params \<longleftrightarrow> sql = sql2"
    by (simp add: generateCacheKey_def)
next
  show "generateCacheKey sql params = generateCacheKey sql params2
        \<longleftrightarrow> stringify (JArr params) = stringify (JArr params2)"
    by (rule key_same_statement)
next
  assume "plain_elems (map JNum ns) \<and> plain_elems (map JNum ms)
        \<and> generateCacheKey sql (map JNum ns) = generateCacheKey sql (map JNum ms)"
  then have "stringify (JArr (map JNum ns)) = stringify (JArr (map JNum ms))"
    by (simp add: key_same_statement)
  then show "ns = ms" by (rule number_list_text_inj)
next
  assume "Map_has (queryCache dbm) (generateCacheKey sql params)"
  then show "query ex dbm sql params
        = (Inr (Map_get (queryCache dbm) (generateCacheKey sql params)), dbm)"
    by (rule query_hit)
next
  assume m: "\<not> Map_has (queryCache dbm) (generateCacheKey sql params)"
  from query_miss_runs [OF m, of ex]
  show "fst (query ex dbm sql params) = fst (ex sql params (backend dbm))"
    and "backend (snd (query ex dbm sql params)) = snd (ex sql params (backend dbm))"
    by simp_all
next
  assume q: "query ex dbm sql params = (Inr r, dbm1)"
    and k: "generateCacheKey sql2 params2 = generateCacheKey sql params"
  from query_result_cached [OF q] k
  have "Map_has (queryCache dbm1) (generateCacheKey sql2 params2)"
    and "Map_get (queryCache dbm1) (generateCacheKey sql2 params2) = r" by simp_all
  then show "query ex2 dbm1 sql2 params2 = (Inr r, dbm1)"
    by (simp add: query_hit)
qed

text \<open>
  The key of a statement with parameters of every kind is its text, a colon and their
  JSON. A query with the parameters 100 and 0 is stored and answered again from the cache;
  the same statement with 100 and 100 has another key and runs. The first \<^verbatim>\<open>DELETE\<close> of
  user 1 removes the row and reports one row affected; the same \<^verbatim>\<open>DELETE\<close> again reports
  one row affected from the cache and reaches no store.
\<close>

theorem query_caches_every_statement_witness:
  "plain_elems mixed_params
   \<and> generateCacheKey select_range mixed_params = select_range @ '':'' @ mixed_json
   \<and> query echo_exec fresh_db select_range [JNum 100, JNum 0]
       = (Inr (JArr [JNum 100, JNum 0]), after_first)
   \<and> query echo_exec after_first select_range [JNum 100, JNum 0]
       = (Inr (JArr [JNum 100, JNum 0]), after_first)
   \<and> \<not> Map_has (queryCache after_first) (generateCacheKey select_range [JNum 100, JNum 100])
   \<and> fst (query echo_exec after_first select_range [JNum 100, JNum 100])
       = Inr (JArr [JNum 100, JNum 100])
   \<and> query table_exec shop_db ''DELETE FROM users WHERE id = ?'' [JNum 1]
       = (Inr (JObj [(''affectedRows'', JNum 1)]), shop_after_delete)
   \<and> query table_exec shop_after_delete ''DELETE FROM users WHERE id = ?'' [JNum 1]
       = (Inr (JObj [(''affectedRows'', JNum 1)]), shop_after_delete)"
proof -
  have pl: "plain_elems mixed_params" by code_simp
  have js: "stringify (JArr mixed_params) = mixed_json" by code_simp
  from query_caches_every_statement [where params = mixed_params and sql = select_range] pl
  have "generateCacheKey select_range mixed_params
      = select_range @ '':'' @ stringify (JArr mixed_params)"
    by blast
  with js have key: "generateCacheKey select_range mixed_params = select_range @ '':'' @ mixed_json"
    by simp
  have "fst (query echo_exec fresh_db select_range [JNum 100, JNum 0])
      = Inr (JArr [JNum 100, JNum 0])"
    by code_simp
  then have first: "query echo_exec fresh_db select_range [JNum 100, JNum 0]
       = (Inr (JArr [JNum 100, JNum 0]), after_first)"
    unfolding after_first_def by (metis prod.collapse)
  from query_caches_every_statement
         [where dbm = fresh_db and sql = select_range and params = "[JNum 100, JNum 0]"
            and ex = echo_exec and r = "JArr [JNum 100, JNum 0]" and ?dbm1.0 = after_first
            and ?sql2.0 = select_range and ?params2.0 = "[JNum 100, JNum 0]" and ?ex2.0 = echo_exec]
       first
  have again: "query echo_exec after_first select_range [JNum 100, JNum 0]
       = (Inr (JArr [JNum 100, JNum 0]), after_first)"
    by blast
  have keys: "map fst (queryCache after_first) = [generateCacheKey select_range (map JNum [100, 0])]"
    by code_simp
  have safe: "plain_elems (map JNum [100, 100]) \<and> plain_elems (map JNum [100, 0])" by simp
  from query_caches_every_statement
         [where sql = select_range and ns = "[100, 100]" and ms = "[100, 0]"] safe
  have "generateCacheKey select_range (map JNum [100, 100])
       = generateCacheKey select_range (map JNum [100, 0]) \<longrightarrow> [100, 100] = [100, 0::int]"
    by blast
  then have differ: "generateCacheKey select_range (map JNum [100, 100])
       \<noteq> generateCacheKey select_range (map JNum [100, 0])"
    by auto
  with keys have miss: "\<not> Map_has (queryCache after_first)
       (generateCacheKey select_range [JNum 100, JNum 100])"
    by (simp add: Map_has_def)
  have ran: "fst (echo_exec select_range [JNum 100, JNum 100] (backend after_first))
       = Inr (JArr [JNum 100, JNum 100])"
    by (simp add: echo_exec_def)
  from query_caches_every_statement
         [where dbm = after_first and sql = select_range and params = "[JNum 100, JNum 100]"
            and ex = echo_exec] miss
  have "fst (query echo_exec after_first select_range [JNum 100, JNum 100])
       = fst (echo_exec select_range [JNum 100, JNum 100] (backend after_first))"
    by blast
  with ran have other: "fst (query echo_exec after_first select_range [JNum 100, JNum 100])
       = Inr (JArr [JNum 100, JNum 100])"
    by simp
  from query_caches_every_statement
         [where dbm = shop_db and sql = "''DELETE FROM users WHERE id = ?''"
            and params = "[JNum 1]" and ex = table_exec
            and r = "JObj [(''affectedRows'', JNum 1)]" and ?dbm1.0 = shop_after_delete
            and ?sql2.0 = "''DELETE FROM users WHERE id = ?''" and ?params2.0 = "[JNum 1]"
            and ?ex2.0 = table_exec]
       first_delete_runs
  have deleted: "query table_exec shop_after_delete ''DELETE FROM users WHERE id = ?'' [JNum 1]
     = (Inr (JObj [(''affectedRows'', JNum 1)]), shop_after_delete)"
    by blast
  from pl key first again miss other first_delete_runs deleted show ?thesis by blast
qed

subsection \<open>What listProducts sends to the store\<close>

lemma listProducts_miss:
  assumes "\<not> Map_has (queryCache (ps_db ps))
               (generateCacheKey (fst (listProducts_statement fs)) (snd (listProducts_statement fs)))"
    and "ex (fst (listProducts_statement fs)) (snd (listProducts_statement fs)) (backend (ps_db ps))
           = (Inr rows, st)"
    and "\<not> nullish rows"
  shows "fst (listProducts ex ps fs) = Inr rows
       \<and> backend (ps_db (snd (listProducts ex ps fs))) = st"
  using assms
  by (simp add: listProducts_def query_def Let_def js_get_def clearOldestCacheEntries_def)

lemma listProducts_unsorted:
  assumes "f_sortBy fs \<notin> set allowedSorts" and "v \<notin> set allowedSorts"
  shows "listProducts ex ps (fs\<lparr>f_sortBy := v\<rparr>) = listProducts ex ps fs"
  using unsorted_statement [OF assms] by (simp add: listProducts_def)

text \<open>
  C9, as the code has it. For every filters argument of \<^verbatim>\<open>listProducts\<close>: the statement
  is built from fixed fragments, chosen by which filters are given, and the values of
  category, minimum and maximum price and limit are its parameter list, in this order. When
  \<open>sortBy\<close> is not one of \<open>price\<close>, \<open>name\<close>, \<open>category\<close>, the statement has no \<open>ORDER BY\<close> in
  it and the raw value is not written into it: \<^verbatim>\<open>listProducts\<close> does the same for any
  other value outside the allow-list. When \<open>sortBy\<close> is in the allow-list, the clause is
  \<open>ORDER BY\<close>, that column, and \<open>DESC\<close> when \<open>sortOrder\<close> is the string \<open>desc\<close>, \<open>ASC\<close>
  otherwise. On a cache miss \<^verbatim>\<open>listProducts\<close> runs exactly this statement with exactly
  these parameters on the store and returns its rows.
\<close>

theorem listProducts_sort_allow_list:
  "fst (listProducts_statement fs) =
     ''SELECT * FROM products WHERE 1=1''
     @ (if truthy (f_category fs) then '' AND category = ?'' else [])
     @ (if f_minPrice fs \<noteq> JUndefined then '' AND price >= ?'' else [])
     @ (if f_maxPrice fs \<noteq> JUndefined then '' AND price <= ?'' else [])
     @ (if truthy (f_inStock fs) then '' AND stock > 0'' else [])
     @ (if truthy (f_sortBy fs) \<and> f_sortBy fs \<in> set allowedSorts
        then '' ORDER BY '' @ to_string (f_sortBy fs)
             @ (if f_sortOrder fs = JStr ''desc'' then '' DESC'' else '' ASC'')
        else [])
     @ (if truthy (f_limit fs) then '' LIMIT ?'' else [])
   \<and> snd (listProducts_statement fs)
        = (if truthy (f_category fs) then [f_category fs] else [])
          @ (if f_minPrice fs \<noteq> JUndefined then [f_minPrice fs] else [])
          @ (if f_maxPrice fs \<noteq> JUndefined then [f_maxPrice fs] else [])
          @ (if truthy (f_limit fs) then [f_limit fs] else [])
   \<and> (f_sortBy fs \<notin> set allowedSorts \<longrightarrow>
        \<not> sublist ''ORDER BY'' (fst (listProducts_statement fs))
        \<and> (v \<notin> set allowedSorts \<longrightarrow>
             listProducts ex ps (fs\<lparr>f_sortBy := v\<rparr>) = listProducts ex ps fs))
   \<and> (f_sortBy fs \<in> set allowedSorts \<longrightarrow>
        truthy (f_sortBy fs) \<and> to_string (f_sortBy fs) \<in> {''price'', ''name'', ''category''})
   \<and> (truthy (f_category fs2) = truthy (f_category fs)
        \<and> (f_minPrice fs2 = JUndefined) = (f_minPrice fs = JUndefined)
        \<and> (f_maxPrice fs2 = JUndefined) = (f_maxPrice fs = JUndefined)
        \<and> truthy (f_inStock fs2) = truthy (f_inStock fs)
        \<and> f_sortBy fs2 = f_sortBy fs \<and> f_sortOrder fs2 = f_sortOrder fs
        \<and> truthy (f_limit fs2) = truthy (f_limit fs) \<longrightarrow>
        fst (listProducts_statement fs2) = fst (listProducts_statement fs))
   \<and> (\<not> Map_has (queryCache (ps_db ps))
            (generateCacheKey (fst (listProducts_statement fs)) (snd (listProducts_statement fs)))
        \<and> ex (fst (listProducts_statement fs)) (snd (listProducts_statement fs)) (backend (ps_db ps))
            = (Inr rows, st)
        \<and> \<not> nullish rows \<longrightarrow>
        fst (listProducts ex ps fs) = Inr rows
        \<and> backend (ps_db (snd (listProducts ex ps fs))) = st)"
proof (intro conjI impI)
  show "fst (listProducts_statement fs) =
     ''SELECT * FROM products WHERE 1=1''
     @ (if truthy (f_category fs) then '' AND category = ?'' else [])
     @ (if f_minPrice fs \<noteq> JUndefined then '' AND price >= ?'' else [])
     @ (if f_maxPrice fs \<noteq> JUndefined then '' AND price <= ?'' else [])
     @ (if truthy (f_inStock fs) then '' AND stock > 0'' else [])
     @ (if truthy (f_sortBy fs) \<and> f_sortBy fs \<in> set allowedSorts
        then '' ORDER BY '' @ to_string (f_sortBy fs)
             @ (if f_sortOrder fs = JStr ''desc'' then '' DESC'' else '' ASC'')
        else [])
     @ (if truthy (f_limit fs) then '' LIMIT ?'' else [])"
    by (rule statement_text)
next
  show "snd (listProducts_statement fs)
        = (if truthy (f_category fs) then [f_category fs] else [])
          @ (if f_minPrice fs \<noteq> JUndefined then [f_minPrice fs] else [])
          @ (if f_maxPrice fs \<noteq> JUndefined then [f_maxPrice fs] else [])
          @ (if truthy (f_limit fs) then [f_limit fs] else [])"
    by (rule statement_params)
next
  assume "f_sortBy fs \<notin> set allowedSorts"
  then show "\<not> sublist ''ORDER BY'' (fst (listProducts_statement fs))"
    by (intro no_Y_no_order_by unsorted_no_Y)
next
  assume "f_sortBy fs \<notin> set allowedSorts" and "v \<notin> set allowedSorts"
  then show "listProducts ex ps (fs\<lparr>f_sortBy := v\<rparr>) = listProducts ex ps fs"
    by (rule listProducts_unsorted)
next
  assume "f_sortBy fs \<in> set allowedSorts"
  then show "truthy (f_sortBy fs)" by (rule allowed_truthy)
next
  assume "f_sortBy fs \<in> set allowedSorts"
  then show "to_string (f_sortBy fs) \<in> {''price'', ''name'', ''category''}"
    by (rule allowed_column)
next
  assume "truthy (f_category fs2) = truthy (f_category fs)
        \<and> (f_minPrice fs2 = JUndefined) = (f_minPrice fs = JUndefined)
        \<and> (f_maxPrice fs2 = JUndefined) = (f_maxPrice fs = JUndefined)
        \<and> truthy (f_inStock fs2) = truthy (f_inStock fs)
        \<and> f_sortBy fs2 = f_sortBy fs \<and> f_sortOrder fs2 = f_sortOrder fs
        \<and> truthy (f_limit fs2) = truthy (f_limit fs)"
  then show "fst (listProducts_statement fs2) = fst (listProducts_statement fs)"
    by (intro statement_text_cong) simp_all
next
  assume a: "\<not> Map_has (queryCache (ps_db ps))
            (generateCacheKey (fst (listProducts_statement fs)) (snd (listProducts_statement fs)))
        \<and> ex (fst (listProducts_statement fs)) (snd (listProducts_statement fs)) (backend (ps_db ps))
            = (Inr rows, st)
        \<and> \<not> nullish rows"
  then have "fst (listProducts ex ps fs) = Inr rows
        \<and> backend (ps_db (snd (listProducts ex ps fs))) = st"
    by (intro listProducts_miss) simp_all
  then show "fst (listProducts ex ps fs) = Inr rows"
    and "backend (ps_db (snd (listProducts ex ps fs))) = st" by simp_all
qed

text \<open>
  The value \<^verbatim>\<open>products\<close> is outside the allow-list, and \<^verbatim>\<open>listProducts\<close> sends the
  statement without any sort clause; yet the string \<^verbatim>\<open>products\<close> occurs in that statement,
  as the name of the table, where the specification states that the raw \<open>sortBy\<close> string
  never appears in the statement text.
\<close>

theorem raw_sortBy_occurs_in_statement:
  "f_sortBy products_filters = JStr ''products''
   \<and> JStr ''products'' \<notin> set allowedSorts
   \<and> backend (ps_db (snd (listProducts recording_exec recorder products_filters)))
       = [(''SELECT * FROM products WHERE 1=1'', [])]
   \<and> sublist ''products'' ''SELECT * FROM products WHERE 1=1''"
  by code_simp

text \<open>
  With the raw value \<^verbatim>\<open>; DROP TABLE products\<close> as \<open>sortBy\<close>, \<^verbatim>\<open>listProducts\<close> sends the
  statement that it sends without any \<open>sortBy\<close>, with the three values as parameters; with
  the column \<open>price\<close> and the order \<open>desc\<close> it sends the statement with that clause.
\<close>

theorem listProducts_sort_allow_list_witness:
  "f_sortBy injected_filters \<notin> set allowedSorts
   \<and> \<not> sublist ''ORDER BY'' (fst (listProducts_statement injected_filters))
   \<and> listProducts recording_exec recorder (injected_filters\<lparr>f_sortBy := JUndefined\<rparr>)
       = listProducts recording_exec recorder injected_filters
   \<and> fst (listProducts recording_exec recorder injected_filters) = Inr (JArr [])
   \<and> backend (ps_db (snd (listProducts recording_exec recorder injected_filters)))
       = [(''SELECT * FROM products WHERE 1=1 AND category = ? AND price >= ? LIMIT ?'',
           [JStr ''tools'', JNum 5, JNum 10])]
   \<and> f_sortBy sorted_filters \<in> set allowedSorts
   \<and> backend (ps_db (snd (listProducts recording_exec recorder sorted_filters)))
       = [(''SELECT * FROM products WHERE 1=1 AND category = ? AND price >= ? ORDER BY price DESC LIMIT ?'',
           [JStr ''tools'', JNum 5, JNum 10])]"
proof -
  have out: "f_sortBy injected_filters \<notin> set allowedSorts"
    by (simp add: injected_filters_def allowedSorts_def)
  have und: "JUndefined \<notin> set allowedSorts"
    by (simp add: allowedSorts_def)
  have inside: "f_sortBy sorted_filters \<in> set allowedSorts"
    by (simp add: sorted_filters_def allowedSorts_def)
  note inj = listProducts_sort_allow_list
               [where fs = injected_filters and v = JUndefined and ?fs2.0 = injected_filters
                  and ex = recording_exec and ps = recorder and rows = "JArr []"]
  note srt = listProducts_sort_allow_list
               [where fs = sorted_filters and v = JUndefined and ?fs2.0 = sorted_filters
                  and ex = recording_exec and ps = recorder and rows = "JArr []"]
  from inj have text1: "fst (listProducts_statement injected_filters)
       = ''SELECT * FROM products WHERE 1=1 AND category = ? AND price >= ? LIMIT ?''"
    by (simp add: injected_filters_def allowedSorts_def)
  from inj have par1: "snd (listProducts_statement injected_filters)
       = [JStr ''tools'', JNum 5, JNum 10]"
    by (simp add: injected_filters_def)
  from srt have text2: "fst (listProducts_statement sorted_filters)
       = ''SELECT * FROM products WHERE 1=1 AND category = ? AND price >= ? ORDER BY price DESC LIMIT ?''"
    by (simp add: sorted_filters_def injected_filters_def allowedSorts_def)
  from srt have par2: "snd (listProducts_statement sorted_filters)
       = [JStr ''tools'', JNum 5, JNum 10]"
    by (simp add: sorted_filters_def injected_filters_def)
  have empty: "queryCache (ps_db recorder) = []" "backend (ps_db recorder) = []"
    by (simp_all add: recorder_def new_ProductService_def new_DatabaseManager_def)
  from inj out und
  have a: "\<not> sublist ''ORDER BY'' (fst (listProducts_statement injected_filters))"
    and b: "listProducts recording_exec recorder (injected_filters\<lparr>f_sortBy := JUndefined\<rparr>)
       = listProducts recording_exec recorder injected_filters"
    by blast+
  have miss1: "\<not> Map_has (queryCache (ps_db recorder))
        (generateCacheKey (fst (listProducts_statement injected_filters))
           (snd (listProducts_statement injected_filters)))"
    by (simp add: empty Map_has_def)
  have run1: "recording_exec (fst (listProducts_statement injected_filters))
        (snd (listProducts_statement injected_filters)) (backend (ps_db recorder))
      = (Inr (JArr []),
         [(''SELECT * FROM products WHERE 1=1 AND category = ? AND price >= ? LIMIT ?'',
           [JStr ''tools'', JNum 5, JNum 10])])"
    by (simp add: recording_exec_def empty text1 par1)
  from inj [where st = "[(''SELECT * FROM products WHERE 1=1 AND category = ? AND price >= ? LIMIT ?'',
           [JStr ''tools'', JNum 5, JNum 10])]"] miss1 run1
  have c: "fst (listProducts recording_exec recorder injected_filters) = Inr (JArr [])"
    and d: "backend (ps_db (snd (listProducts recording_exec recorder injected_filters)))
       = [(''SELECT * FROM products WHERE 1=1 AND category = ? AND price >= ? LIMIT ?'',
           [JStr ''tools'', JNum 5, JNum 10])]"
    by simp_all
  have miss2: "\<not> Map_has (queryCache (ps_db recorder))
        (generateCacheKey (fst (listProducts_statement sorted_filters))
           (snd (listProducts_statement sorted_filters)))"
    by (simp add: empty Map_has_def)
  have run2: "recording_exec (fst (listProducts_statement sorted_filters))
        (snd (listProducts_statement sorted_filters)) (backend (ps_db recorder))
      = (Inr (JArr []),
         [(''SELECT * FROM products WHERE 1=1 AND category = ? AND price >= ? ORDER BY price DESC LIMIT ?'',
           [JStr ''tools'', JNum 5, JNum 10])])"
    by (simp add: recording_exec_def empty text2 par2)
  from srt [where st = "[(''SELECT * FROM products WHERE 1=1 AND category = ? AND price >= ? ORDER BY price DESC LIMIT ?'',
           [JStr ''tools'', JNum 5, JNum 10])]"] miss2 run2
  have e: "backend (ps_db (snd (listProducts recording_exec recorder sorted_filters)))
       = [(''SELECT * FROM products WHERE 1=1 AND category = ? AND price >= ? ORDER BY price DESC LIMIT ?'',
           [JStr ''tools'', JNum 5, JNum 10])]"
    by simp
  from out a b c d inside e show ?thesis by blast
qed

end
